theory Spec2Isabelle
  imports Main "HOL-Library.Char_ord" "HOL-Library.List_Lexorder" "HOL-Library.Product_Lexorder"
    "HOL-Library.Multiset"
begin

section \<open>Python string primitives\<close>

text \<open>
  A Python \<open>str\<close> is modelled as a \<open>string\<close> whose characters stand for the code points
  0..255. Strings are compared as Python compares them, code point by code point
  (the lexicographic order on \<open>char list\<close>).
\<close>

definition py_isspace :: "char \<Rightarrow> bool" where
  \<comment> \<open>\<open>str.isspace\<close> on one character: TAB..CR, FS..US, space, NEL, NBSP.\<close>
  "py_isspace c =
     (let n = (of_char c :: nat)
      in (9 \<le> n \<and> n \<le> 13) \<or> (28 \<le> n \<and> n \<le> 32) \<or> n = 133 \<or> n = 160)"

definition py_isdigit :: "char \<Rightarrow> bool" where
  \<comment> \<open>\<open>str.isdigit\<close> on one character: 0..9 and the superscripts 2, 3, 1.\<close>
  "py_isdigit c =
     (let n = (of_char c :: nat)
      in (48 \<le> n \<and> n \<le> 57) \<or> n = 178 \<or> n = 179 \<or> n = 185)"

definition py_lower_char :: "char \<Rightarrow> char" where
  "py_lower_char c =
     (let n = (of_char c :: nat)
      in if (65 \<le> n \<and> n \<le> 90) \<or> (192 \<le> n \<and> n \<le> 222 \<and> n \<noteq> 215)
         then char_of (n + 32) else c)"

definition py_lower :: "string \<Rightarrow> string" where
  "py_lower s = map py_lower_char s"

definition py_strip :: "string \<Rightarrow> string" where
  "py_strip s = rev (dropWhile py_isspace (rev (dropWhile py_isspace s)))"

definition py_replace :: "char \<Rightarrow> char \<Rightarrow> string \<Rightarrow> string" where
  \<comment> \<open>\<open>s.replace(a, b)\<close> for one-character \<open>a\<close> and \<open>b\<close>.\<close>
  "py_replace a b s = map (\<lambda>c. if c = a then b else c) s"

definition endswith :: "string \<Rightarrow> string \<Rightarrow> bool" where
  \<comment> \<open>\<open>key.endswith(cand)\<close>\<close>
  "endswith key cand =
     (length cand \<le> length key \<and> drop (length key - length cand) key = cand)"

definition py_str :: "string option \<Rightarrow> string" where
  \<comment> \<open>\<open>str(x)\<close> of a cell: a NULL cell of an object column is the object \<open>None\<close>.\<close>
  "py_str x = (case x of None \<Rightarrow> ''None'' | Some s \<Rightarrow> s)"

definition str_or_empty :: "string option \<Rightarrow> string" where
  \<comment> \<open>\<open>str(x or "")\<close>\<close>
  "str_or_empty x = (case x of None \<Rightarrow> [] | Some s \<Rightarrow> s)"

section \<open>Package of an activity\<close>

text \<open>
  The four regular expressions of \<open>_extract_package\<close> share the group
  \<open>([A-Za-z0-9._]+)\<close> followed by one more character. The group is greedy: it takes the
  longest run of class characters and gives characters back, one at a time, until the
  next character is the one the pattern asks for.
\<close>

definition ident_char :: "char \<Rightarrow> bool" where
  \<comment> \<open>the class \<open>[A-Za-z0-9._]\<close>\<close>
  "ident_char c =
     (let n = (of_char c :: nat)
      in (65 \<le> n \<and> n \<le> 90) \<or> (97 \<le> n \<and> n \<le> 122) \<or> (48 \<le> n \<and> n \<le> 57)
         \<or> c = CHR ''.'' \<or> c = CHR ''_'')"

fun backtrack :: "(char \<Rightarrow> bool) \<Rightarrow> nat \<Rightarrow> string \<Rightarrow> string option" where
  "backtrack t 0 s = None"
| "backtrack t (Suc k) s =
     (if Suc k < length s \<and> t (s ! Suc k) then Some (take (Suc k) s) else backtrack t k s)"

definition group_then :: "(char \<Rightarrow> bool) \<Rightarrow> string \<Rightarrow> string option" where
  \<comment> \<open>\<open>([A-Za-z0-9._]+)\<close> and then one character satisfying \<open>t\<close>, matched at the start of
      \<open>s\<close>; the result is the group.\<close>
  "group_then t s = backtrack t (length (takeWhile ident_char s)) s"

fun re_search :: "(string \<Rightarrow> string option) \<Rightarrow> string \<Rightarrow> string option" where
  \<comment> \<open>\<open>re.search\<close>: the match at the leftmost position where the pattern matches\<close>
  "re_search m [] = m []"
| "re_search m (c # cs) = (case m (c # cs) of Some g \<Rightarrow> Some g | None \<Rightarrow> re_search m cs)"

definition brace_group :: "string \<Rightarrow> string option" where
  \<comment> \<open>\<open>\{([A-Za-z0-9._]+)/\<close> at the start of \<open>s\<close>\<close>
  "brace_group s =
     (case s of
        [] \<Rightarrow> None
      | c # cs \<Rightarrow> if c = CHR ''{'' then group_then (\<lambda>d. d = CHR ''/'') cs else None)"

definition whole_group :: "string \<Rightarrow> string option" where
  \<comment> \<open>\<open>^([A-Za-z0-9._]+)$\<close>; \<open>$\<close> matches at the end and before a final newline\<close>
  "whole_group s =
     (if s \<noteq> [] \<and> list_all ident_char s then Some s
      else if s \<noteq> [] \<and> last s = CHR 0x0A \<and> butlast s \<noteq> [] \<and> list_all ident_char (butlast s)
      then Some (butlast s)
      else None)"

definition extract_package :: "string option \<Rightarrow> string option" where
  "extract_package real_activity =
     (case real_activity of
        None \<Rightarrow> None
      | Some v \<Rightarrow>
          if v = [] then None
          else
            (let s = py_strip v
             in case re_search brace_group s of
                  Some g \<Rightarrow> Some g
                | None \<Rightarrow>
                    (case group_then (\<lambda>d. d = CHR ''/'' \<or> d = CHR '' '') s of
                       Some g \<Rightarrow> Some g
                     | None \<Rightarrow>
                         (case whole_group s of
                            Some g \<Rightarrow> Some g
                          | None \<Rightarrow> re_search (group_then (\<lambda>d. d = CHR ''.'')) s))))"

section \<open>The tables read by the report\<close>

text \<open>
  A cell of a TEXT column is \<open>Some s\<close>, or \<open>None\<close> for NULL. A RecentTasks row carries the
  columns selected by \<open>read_recenttasks\<close> that the report uses, and the \<open>package\<close> column
  that the reader adds; a UsageStats row carries the columns selected by
  \<open>read_usagestats\<close>.
\<close>

record rct_raw =
  task_id :: "string option"
  real_activity :: "string option"
  last_time_moved_utc :: "string option"
  snapshot_file :: "string option"

record rct_row = rct_raw +
  package :: "string option"

record usg_row =
  last_time_kst :: "string option"
  usg_package :: "string option"
  types :: "string option"
  classs :: "string option"
  source :: "string option"

definition fillna_android :: "string option \<Rightarrow> string" where
  \<comment> \<open>\<open>.fillna("android").astype(str)\<close> on one cell\<close>
  "fillna_android p = (case p of None \<Rightarrow> ''android'' | Some s \<Rightarrow> s)"

definition rct_pkg2 :: "rct_row \<Rightarrow> string" where
  "rct_pkg2 r = fillna_android (package r)"

definition usg_pkg2 :: "usg_row \<Rightarrow> string" where
  "usg_pkg2 r = fillna_android (usg_package r)"

definition read_recenttasks :: "rct_raw list option \<Rightarrow> rct_row list" where
  \<comment> \<open>The argument is the result of the query, or \<open>None\<close> when the database is missing.\<close>
  "read_recenttasks db =
     (case db of
        None \<Rightarrow> []
      | Some rows \<Rightarrow>
          map (\<lambda>r. \<lparr>task_id = task_id r, real_activity = real_activity r,
                     last_time_moved_utc = last_time_moved_utc r,
                     snapshot_file = snapshot_file r,
                     package = extract_package (real_activity r)\<rparr>) rows)"

section \<open>The snapshot index\<close>

record path =
  parent :: string
  name :: string

type_synonym snap_index = "(string \<times> path) list"

text \<open>
  A Python \<open>dict\<close> keeps its keys in the order of their first insertion; storing under
  a key that is present replaces the value in place.
\<close>

fun dict_set :: "string \<Rightarrow> path \<Rightarrow> snap_index \<Rightarrow> snap_index" where
  "dict_set k v [] = [(k, v)]"
| "dict_set k v ((k', v') # m) = (if k' = k then (k, v) # m else (k', v') # dict_set k v m)"

definition dict_mem :: "string \<Rightarrow> snap_index \<Rightarrow> bool" where
  \<comment> \<open>\<open>k in snap_index\<close>\<close>
  "dict_mem k m = (map_of m k \<noteq> None)"

definition index_snapshots :: "(path \<times> bool) list option \<Rightarrow> snap_index" where
  \<comment> \<open>The argument is the listing \<open>snap_dir.rglob("*")\<close>, each entry with its \<open>is_file()\<close>,
      or \<open>None\<close> when the directory does not exist.\<close>
  "index_snapshots listing =
     (case listing of
        None \<Rightarrow> []
      | Some ps \<Rightarrow>
          fold (\<lambda>(p, is_file) mapping.
                  if is_file then dict_set (py_lower (name p)) p mapping else mapping) ps [])"

section \<open>Snapshot score of a package\<close>

definition exts :: "string list" where
  "exts = [''.jpg'', ''.png'', ''.webp'', ''.jpeg'']"

definition digit_candidates :: "string \<Rightarrow> string list" where
  "digit_candidates digits =
     map (\<lambda>e. digits @ e) exts @ map (\<lambda>e. digits @ ''_reduced'' @ e) exts"

fun score_found :: "snap_index \<Rightarrow> string list \<Rightarrow> bool" where
  "score_found idx [] = False"
| "score_found idx (cand # cands) =
     (if dict_mem cand idx then True
      else if list_ex (\<lambda>key. endswith key cand) (map fst idx) then True
      else score_found idx cands)"

definition row_scores :: "snap_index \<Rightarrow> rct_row \<Rightarrow> bool" where
  \<comment> \<open>The body of the loop of \<open>_snapshot_score_for_pkg\<close>: does this row add 1?\<close>
  "row_scores idx r =
     (let sf = py_lower (py_strip (str_or_empty (snapshot_file r)))
      in if sf \<noteq> [] \<and> dict_mem sf idx then True
         else
           let tid = str_or_empty (task_id r);
               digits = filter py_isdigit tid;
               candidates = (if sf \<noteq> [] then [sf] else [])
                            @ (if digits \<noteq> [] then digit_candidates digits else [])
           in score_found idx candidates)"

definition snapshot_score_for_pkg :: "snap_index \<Rightarrow> rct_row list \<Rightarrow> string \<Rightarrow> int" where
  "snapshot_score_for_pkg idx df_rct2 pkg =
     (let sub_r = filter (\<lambda>r. rct_pkg2 r = pkg) df_rct2
      in if sub_r = [] then 0
         else fold (\<lambda>r score. if row_scores idx r then score + 1 else score) sub_r 0)"

section \<open>Minute keys\<close>

definition minute_key_from_usg :: "string option \<Rightarrow> string" where
  "minute_key_from_usg s =
     (case s of
        None \<Rightarrow> []
      | Some v \<Rightarrow> if v = [] then [] else take 16 (py_strip (py_replace CHR ''T'' CHR '' '' v)))"

text \<open>
  A \<open>datetime\<close> object: the civil fields and, for an aware object, the offset of its
  \<open>tzinfo\<close> from UTC in microseconds.
\<close>

record datetime =
  year :: int
  month :: int
  day :: int
  hour :: int
  minute :: int
  second :: int
  microsecond :: int
  tzinfo :: "int option"

definition is_leap :: "int \<Rightarrow> bool" where
  "is_leap y = (y mod 4 = 0 \<and> (y mod 100 \<noteq> 0 \<or> y mod 400 = 0))"

definition days_in_month :: "int \<Rightarrow> int \<Rightarrow> int" where
  "days_in_month y m =
     (if m = 2 then (if is_leap y then 29 else 28)
      else if m = 4 \<or> m = 6 \<or> m = 9 \<or> m = 11 then 30 else 31)"

definition days_before_year :: "int \<Rightarrow> int" where
  "days_before_year y = (let p = y - 1 in p * 365 + p div 4 - p div 100 + p div 400)"

definition days_before_month :: "int \<Rightarrow> int \<Rightarrow> int" where
  "days_before_month y m = sum_list (map (\<lambda>k. days_in_month y (int k)) [1..<nat m])"

definition toordinal :: "int \<Rightarrow> int \<Rightarrow> int \<Rightarrow> int" where
  \<comment> \<open>proleptic Gregorian ordinal; 0001-01-01 is day 1\<close>
  "toordinal y m d = days_before_year y + days_before_month y m + d"

definition us_per_day :: int where
  "us_per_day = 86400000000"

definition to_us :: "datetime \<Rightarrow> int" where
  \<comment> \<open>microseconds of the civil fields since 0001-01-01T00:00:00\<close>
  "to_us dt =
     (toordinal (year dt) (month dt) (day dt) - 1) * us_per_day
     + ((hour dt * 60 + minute dt) * 60 + second dt) * 1000000 + microsecond dt"

definition in_datetime_range :: "int \<Rightarrow> bool" where
  \<comment> \<open>\<open>datetime.min\<close> .. \<open>datetime.max\<close>; arithmetic leaving it raises \<open>OverflowError\<close>\<close>
  "in_datetime_range t = (0 \<le> t \<and> t < toordinal 9999 12 31 * us_per_day)"

definition year_of_ordinal :: "int \<Rightarrow> int" where
  \<comment> \<open>the year containing day \<open>n\<close>, for \<open>n\<close> \<ge> 1\<close>
  "year_of_ordinal n =
     (let y = (n - 1) div 366 + 1;
          ys = filter (\<lambda>k. days_before_year (y + int k + 1) < n) [0..<30]
      in y + int (length ys))"

definition month_of_yday :: "int \<Rightarrow> int \<Rightarrow> int" where
  \<comment> \<open>the month containing the \<open>k\<close>-th day (from 1) of year \<open>y\<close>\<close>
  "month_of_yday y k =
     1 + int (length (filter (\<lambda>m. days_before_month y (int m + 1) < k) [1..<12]))"

definition fmt2 :: "int \<Rightarrow> string" where
  "fmt2 n = [char_of (48 + n div 10 mod 10), char_of (48 + n mod 10)]"

definition fmt4 :: "int \<Rightarrow> string" where
  "fmt4 n = fmt2 (n div 100) @ fmt2 (n mod 100)"

definition strftime_minute :: "int \<Rightarrow> string" where
  \<comment> \<open>\<open>strftime("%Y-%m-%d %H:%M")\<close> of the instant \<open>t\<close> microseconds after 0001-01-01T00:00;
      the year is written with four digits (a C library may write a year below 1000
      without the leading zeros; the statements below use no such year).\<close>
  "strftime_minute t =
     (let n = t div us_per_day + 1;
          y = year_of_ordinal n;
          k = n - days_before_year y;
          m = month_of_yday y k;
          d = k - days_before_month y m;
          mins = (t mod us_per_day) div 60000000
      in fmt4 y @ ''-'' @ fmt2 m @ ''-'' @ fmt2 d @ '' '' @ fmt2 (mins div 60) @ '':''
         @ fmt2 (mins mod 60))"

definition astimezone_kst :: "datetime \<Rightarrow> int option" where
  \<comment> \<open>\<open>dt.astimezone(timezone(timedelta(hours=9)))\<close> for an aware \<open>dt\<close>: \<open>dt - utcoffset\<close>,
      then \<open>fromutc\<close> adds nine hours; \<open>None\<close> is \<open>OverflowError\<close>. The result is the
      local instant in microseconds since 0001-01-01T00:00.\<close>
  "astimezone_kst dt =
     (let utc = to_us dt - (case tzinfo dt of None \<Rightarrow> 0 | Some off \<Rightarrow> off)
      in if \<not> in_datetime_range utc then None
         else let kst = utc + 9 * 3600000000
              in if \<not> in_datetime_range kst then None else Some kst)"

type_synonym iso_parser = "string \<Rightarrow> datetime option"

definition minute_key_from_rct_utc_to_kst :: "iso_parser \<Rightarrow> string option \<Rightarrow> string" where
  \<comment> \<open>\<open>fromisoformat\<close> is the standard library's \<open>datetime.fromisoformat\<close>, \<open>None\<close> when
      it raises. Every exception of the outer \<open>try\<close> ends in the \<open>except\<close> branch.\<close>
  "minute_key_from_rct_utc_to_kst fromisoformat s =
     (case s of
        None \<Rightarrow> []
      | Some v \<Rightarrow>
          if v = [] then []
          else
            (case (case fromisoformat v of
                     Some dt \<Rightarrow> Some dt
                   | None \<Rightarrow> fromisoformat (py_replace CHR '' '' CHR ''T'' v)) of
               None \<Rightarrow> take 16 (py_replace CHR ''T'' CHR '' '' v)
             | Some dt \<Rightarrow>
                 (case astimezone_kst (if tzinfo dt = None then dt\<lparr>tzinfo := Some 0\<rparr> else dt) of
                    None \<Rightarrow> take 16 (py_replace CHR ''T'' CHR '' '' v)
                  | Some kst \<Rightarrow> strftime_minute kst)))"

section \<open>Per-package correlation in \<open>build_html\<close>\<close>

definition sub_r :: "rct_row list \<Rightarrow> string \<Rightarrow> rct_row list" where
  "sub_r df_rct2 pkg = filter (\<lambda>r. rct_pkg2 r = pkg) df_rct2"

definition sub_u :: "usg_row list \<Rightarrow> string \<Rightarrow> usg_row list" where
  "sub_u df_usg2 pkg = filter (\<lambda>r. usg_pkg2 r = pkg) df_usg2"

definition dropna :: "'a option list \<Rightarrow> 'a list" where
  "dropna xs = List.map_filter id xs"

definition usg_minutes :: "usg_row list \<Rightarrow> string \<Rightarrow> (string \<times> nat) list" where
  "usg_minutes df_usg2 pkg =
     map (\<lambda>(i, x). (minute_key_from_usg (Some x), i))
         (enumerate 0 (dropna (map last_time_kst (sub_u df_usg2 pkg))))"

definition rct_minutes :: "iso_parser \<Rightarrow> rct_row list \<Rightarrow> string \<Rightarrow> (string \<times> nat) list" where
  "rct_minutes fromisoformat df_rct2 pkg =
     map (\<lambda>(i, x). (minute_key_from_rct_utc_to_kst fromisoformat (Some x), i))
         (enumerate 0 (dropna (map last_time_moved_utc (sub_r df_rct2 pkg))))"

definition usg_min_set :: "usg_row list \<Rightarrow> string \<Rightarrow> string set" where
  "usg_min_set df_usg2 pkg = set (map fst (filter (\<lambda>(m, i). m \<noteq> []) (usg_minutes df_usg2 pkg)))"

definition rct_min_set :: "iso_parser \<Rightarrow> rct_row list \<Rightarrow> string \<Rightarrow> string set" where
  "rct_min_set fromisoformat df_rct2 pkg =
     set (map fst (filter (\<lambda>(m, i). m \<noteq> []) (rct_minutes fromisoformat df_rct2 pkg)))"

definition intersect_minutes ::
  "iso_parser \<Rightarrow> rct_row list \<Rightarrow> usg_row list \<Rightarrow> string \<Rightarrow> string set" where
  "intersect_minutes fromisoformat df_rct2 df_usg2 pkg =
     usg_min_set df_usg2 pkg \<inter> rct_min_set fromisoformat df_rct2 pkg"

definition max_or_empty :: "string set \<Rightarrow> string" where
  \<comment> \<open>\<open>max(s) if s else ""\<close>\<close>
  "max_or_empty s = (if s = {} then [] else Max s)"

definition most_recent_usg_min :: "usg_row list \<Rightarrow> string \<Rightarrow> string" where
  "most_recent_usg_min df_usg2 pkg = max_or_empty (usg_min_set df_usg2 pkg)"

definition most_recent_rct_min :: "iso_parser \<Rightarrow> rct_row list \<Rightarrow> string \<Rightarrow> string" where
  "most_recent_rct_min fromisoformat df_rct2 pkg =
     max_or_empty (rct_min_set fromisoformat df_rct2 pkg)"

datatype row_cls = Plain | Blue | Red

definition classify :: "string set \<Rightarrow> string \<Rightarrow> string \<Rightarrow> string \<Rightarrow> row_cls" where
  \<comment> \<open>The choice of \<open>row_cls\<close> for a row with minute key \<open>mk\<close>; \<open>own\<close> is the most recent
      minute of the row's table and \<open>other\<close> that of the other table.\<close>
  "classify common own other mk =
     (if mk \<noteq> [] then
        (if mk \<in> common then Blue
         else if own \<noteq> [] \<and> other \<noteq> [] \<and> mk = own \<and> own \<noteq> other then Red
         else Plain)
      else Plain)"

definition kst_or_empty :: "usg_row \<Rightarrow> string" where
  "kst_or_empty r = (case last_time_kst r of None \<Rightarrow> [] | Some s \<Rightarrow> s)"

definition sort_values_desc :: "usg_row list \<Rightarrow> usg_row list" where
  \<comment> \<open>\<open>sort_values(by="last_time_kst", ascending=False)\<close>: the rows with a value, reversed,
      sorted ascending and reversed again; the rows without a value come last. Rows of
      equal value stand here as a stable sort leaves them; pandas' default sort does not
      fix their relative order, and no statement below depends on it.\<close>
  "sort_values_desc rows =
     rev (sort_key kst_or_empty (rev (filter (\<lambda>r. last_time_kst r \<noteq> None) rows)))
     @ filter (\<lambda>r. last_time_kst r = None) rows"

definition usg_table ::
  "iso_parser \<Rightarrow> rct_row list \<Rightarrow> usg_row list \<Rightarrow> string \<Rightarrow> (usg_row \<times> row_cls) list" where
  "usg_table fromisoformat df_rct2 df_usg2 pkg =
     map (\<lambda>r. (r, classify (intersect_minutes fromisoformat df_rct2 df_usg2 pkg)
                      (most_recent_usg_min df_usg2 pkg)
                      (most_recent_rct_min fromisoformat df_rct2 pkg)
                      (minute_key_from_usg (last_time_kst r))))
         (sort_values_desc (sub_u df_usg2 pkg))"

definition rct_table ::
  "iso_parser \<Rightarrow> rct_row list \<Rightarrow> usg_row list \<Rightarrow> string \<Rightarrow> (rct_row \<times> row_cls) list" where
  "rct_table fromisoformat df_rct2 df_usg2 pkg =
     map (\<lambda>r. (r, classify (intersect_minutes fromisoformat df_rct2 df_usg2 pkg)
                      (most_recent_rct_min fromisoformat df_rct2 pkg)
                      (most_recent_usg_min df_usg2 pkg)
                      (minute_key_from_rct_utc_to_kst fromisoformat (last_time_moved_utc r))))
         (sub_r df_rct2 pkg)"

section \<open>Snapshot images of a package\<close>

fun img_found :: "snap_index \<Rightarrow> string list \<Rightarrow> path option" where
  "img_found idx [] = None"
| "img_found idx (cand # cands) =
     (let lc = py_lower cand
      in case map_of idx lc of
           Some p \<Rightarrow> Some p
         | None \<Rightarrow>
             (case find (\<lambda>(key, p). endswith key lc) idx of
                Some (key, p) \<Rightarrow> Some p
              | None \<Rightarrow> img_found idx cands))"

definition img_candidates :: "rct_row \<Rightarrow> string list" where
  "img_candidates r =
     (let name = py_strip (py_str (snapshot_file r));
          tid = py_strip (py_str (task_id r));
          digits = filter py_isdigit tid
      in (if name \<noteq> [] then [name] else [])
         @ (if digits \<noteq> [] then digit_candidates digits else []))"

definition row_image :: "snap_index \<Rightarrow> rct_row \<Rightarrow> path option" where
  "row_image idx r = img_found idx (img_candidates r)"

definition imgs :: "snap_index \<Rightarrow> rct_row list \<Rightarrow> string \<Rightarrow> path list" where
  "imgs idx df_rct2 pkg = List.map_filter (row_image idx) (sub_r df_rct2 pkg)"

section \<open>Order of the packages\<close>

definition pkgs_all :: "rct_row list \<Rightarrow> usg_row list \<Rightarrow> string list" where
  "pkgs_all df_rct2 df_usg2 =
     sorted_list_of_set (set (map rct_pkg2 df_rct2) \<union> set (map usg_pkg2 df_usg2))"

definition pkgs :: "snap_index \<Rightarrow> rct_row list \<Rightarrow> usg_row list \<Rightarrow> string list" where
  "pkgs idx df_rct2 df_usg2 =
     sort_key (\<lambda>x. (- snapshot_score_for_pkg idx df_rct2 x, x)) (pkgs_all df_rct2 df_usg2)"

section \<open>A concrete \<open>datetime.fromisoformat\<close>\<close>

text \<open>
  The format that every release of \<open>datetime.fromisoformat\<close> documents and accepts:
  \<open>YYYY-MM-DD\<close>, optionally followed by one separator character and
  \<open>HH[:MM[:SS[.fff[fff]]]]\<close> and then by an offset \<open>+HH:MM[:SS[.ffffff]]\<close> (or with \<open>-\<close>),
  with ASCII digits and every field in its range. Later releases accept more than this
  (a \<open>Z\<close> suffix, the basic format without separators). It instantiates the parser at
  the concrete inputs below, which every release parses or rejects alike; the
  statements about all inputs hold for any parser.
\<close>

definition ascii_digit :: "char \<Rightarrow> bool" where
  "ascii_digit c = (48 \<le> (of_char c :: nat) \<and> (of_char c :: nat) \<le> 57)"

definition digits_val :: "string \<Rightarrow> int option" where
  "digits_val s =
     (if s \<noteq> [] \<and> list_all ascii_digit s
      then Some (foldl (\<lambda>n c. 10 * n + (of_char c - 48)) 0 s) else None)"

definition parse_hh_mm_ss_ff :: "string \<Rightarrow> (int \<times> int \<times> int \<times> int) option" where
  "parse_hh_mm_ss_ff t =
     (let n = length t
      in if n = 2 then map_option (\<lambda>h. (h, 0, 0, 0)) (digits_val t)
         else if n = 5 \<and> t ! 2 = CHR '':'' then
           (case (digits_val (take 2 t), digits_val (drop 3 t)) of
              (Some h, Some m) \<Rightarrow> Some (h, m, 0, 0)
            | _ \<Rightarrow> None)
         else if (n = 8 \<or> n = 12 \<or> n = 15) \<and> t ! 2 = CHR '':'' \<and> t ! 5 = CHR '':''
                 \<and> (n = 8 \<or> t ! 8 = CHR ''.'') then
           (case (digits_val (take 2 t), digits_val (take 2 (drop 3 t)),
                  digits_val (take 2 (drop 6 t)),
                  if n = 8 then Some 0
                  else map_option (\<lambda>f. if n = 12 then f * 1000 else f) (digits_val (drop 9 t))) of
              (Some h, Some m, Some s, Some f) \<Rightarrow> Some (h, m, s, f)
            | _ \<Rightarrow> None)
         else None)"

definition split_tz :: "string \<Rightarrow> string \<times> (int \<times> string) option" where
  \<comment> \<open>the time before the first sign, and the sign with the text after it\<close>
  "split_tz t =
     (let no_sign = (\<lambda>c. c \<noteq> CHR ''+'' \<and> c \<noteq> CHR ''-'')
      in case dropWhile no_sign t of
           [] \<Rightarrow> (t, None)
         | c # z \<Rightarrow> (takeWhile no_sign t, Some (if c = CHR ''-'' then - 1 else 1, z)))"

definition fromisoformat :: iso_parser where
  "fromisoformat s =
     (if length s < 10 \<or> s ! 4 \<noteq> CHR ''-'' \<or> s ! 7 \<noteq> CHR ''-'' then None
      else
        (case (digits_val (take 4 s), digits_val (take 2 (drop 5 s)),
               digits_val (take 2 (drop 8 s))) of
           (Some y, Some m, Some d) \<Rightarrow>
             if \<not> (1 \<le> y \<and> 1 \<le> m \<and> m \<le> 12 \<and> 1 \<le> d \<and> d \<le> days_in_month y m) then None
             else if length s = 10 then
               Some \<lparr>year = y, month = m, day = d, hour = 0, minute = 0, second = 0,
                     microsecond = 0, tzinfo = None\<rparr>
             else
               (case split_tz (drop 11 s) of
                  (tm, tz) \<Rightarrow>
                    (case parse_hh_mm_ss_ff tm of
                       None \<Rightarrow> None
                     | Some (h, mi, sec, us) \<Rightarrow>
                         if \<not> (h < 24 \<and> mi < 60 \<and> sec < 60) then None
                         else
                           (case tz of
                              None \<Rightarrow>
                                Some \<lparr>year = y, month = m, day = d, hour = h, minute = mi,
                                      second = sec, microsecond = us, tzinfo = None\<rparr>
                            | Some (tzsign, z) \<Rightarrow>
                                if length z \<noteq> 5 \<and> length z \<noteq> 8 \<and> length z \<noteq> 15 then None
                                else
                                  (case parse_hh_mm_ss_ff z of
                                     None \<Rightarrow> None
                                   | Some (zh, zm, zs, zf) \<Rightarrow>
                                       if zm < 60 \<and> zs < 60 \<and> zh < 24 then
                                         Some \<lparr>year = y, month = m, day = d, hour = h,
                                               minute = mi, second = sec, microsecond = us,
                                               tzinfo = Some (tzsign * (((zh * 60 + zm) * 60 + zs)
                                                                      * 1000000 + zf))\<rparr>
                                       else None))))
         | _ \<Rightarrow> None))"

section \<open>Concrete inputs\<close>

definition demo_usg :: "usg_row list" where
  "demo_usg =
     [\<lparr>last_time_kst = Some ''2024-01-01 10:05:12'', usg_package = Some ''app.demo'',
       types = Some ''ACTIVITY_RESUMED'', classs = Some ''app.demo.Main'', source = Some ''daily''\<rparr>,
      \<lparr>last_time_kst = Some ''2024-01-01 10:09:30'', usg_package = Some ''app.demo'',
       types = Some ''ACTIVITY_PAUSED'', classs = Some ''app.demo.Main'', source = Some ''daily''\<rparr>,
      \<lparr>last_time_kst = Some ''2024-01-01 09:00:00'', usg_package = Some ''aa.usage.only'',
       types = Some ''ACTIVITY_RESUMED'', classs = None, source = None\<rparr>]"

definition demo_raw :: "rct_raw list" where
  "demo_raw =
     [\<lparr>task_id = Some ''42'', real_activity = Some ''app.demo/.Main'',
       last_time_moved_utc = Some ''2024-01-01T01:12:00+00:00'', snapshot_file = None\<rparr>,
      \<lparr>task_id = Some ''41'', real_activity = Some ''ComponentInfo{app.demo/app.demo.Main}'',
       last_time_moved_utc = Some ''2024-01-01T01:05:40+00:00'',
       snapshot_file = Some ''41.JPG''\<rparr>]"

definition demo_rct :: "rct_row list" where
  "demo_rct = read_recenttasks (Some demo_raw)"

definition demo_index :: snap_index where
  "demo_index =
     index_snapshots
       (Some [(\<lparr>parent = ''snapshots'', name = ''41.jpg''\<rparr>, True),
              (\<lparr>parent = ''snapshots/2024'', name = ''task_42_reduced.png''\<rparr>, True),
              (\<lparr>parent = ''snapshots'', name = ''2024''\<rparr>, False)])"

definition twin_usg :: "usg_row list" where
  \<comment> \<open>two events of one package within its most recent minute\<close>
  "twin_usg =
     [\<lparr>last_time_kst = Some ''2024-01-01 10:09:30'', usg_package = Some ''app.demo'',
       types = Some ''ACTIVITY_PAUSED'', classs = Some ''app.demo.Main'', source = Some ''daily''\<rparr>,
      \<lparr>last_time_kst = Some ''2024-01-01 10:09:02'', usg_package = Some ''app.demo'',
       types = Some ''ACTIVITY_RESUMED'', classs = Some ''app.demo.Main'', source = Some ''daily''\<rparr>]"

definition null_row :: rct_row where
  \<comment> \<open>a task without a snapshot, as \<open>build_recenttasks_sqlite.py\<close> stores it\<close>
  "null_row =
     \<lparr>task_id = Some ''task'', real_activity = Some ''app.demo/.Main'',
      last_time_moved_utc = Some ''2024-01-01T01:12:00+00:00'', snapshot_file = None,
      package = Some ''app.demo''\<rparr>"

definition none_path :: path where
  "none_path = \<lparr>parent = ''snapshots'', name = ''IMG_NONE''\<rparr>"

definition none_index :: snap_index where
  "none_index = index_snapshots (Some [(none_path, True)])"

section \<open>Notions used in the statements\<close>

definition precedes :: "'a \<Rightarrow> 'a \<Rightarrow> 'a list \<Rightarrow> bool" where
  \<comment> \<open>\<open>x\<close> stands at an earlier position of \<open>ps\<close> than \<open>y\<close>\<close>
  "precedes x y ps = (\<exists>i j. i < j \<and> j < length ps \<and> ps ! i = x \<and> ps ! j = y)"

definition kst_desc :: "string option \<Rightarrow> string option \<Rightarrow> bool" where
  \<comment> \<open>a row with the value \<open>a\<close> may stand before a row with the value \<open>b\<close> in descending
      order: \<open>b\<close> is not greater, and a missing value stands after every value\<close>
  "kst_desc a b =
     (case b of None \<Rightarrow> True | Some y \<Rightarrow> (case a of None \<Rightarrow> False | Some x \<Rightarrow> y \<le> x))"

definition junk_row :: rct_row where
  \<comment> \<open>a task whose time was stored with slashes\<close>
  "junk_row = \<lparr>task_id = Some ''7'', real_activity = Some ''app.demo/.Main'',
      last_time_moved_utc = Some ''2024/01/01 01:12:00'', snapshot_file = None,
      package = Some ''app.demo''\<rparr>"

definition token_before :: "(char \<Rightarrow> bool) \<Rightarrow> string \<Rightarrow> string \<Rightarrow> bool" where
  \<comment> \<open>\<open>g\<close> is a non-empty string of class characters at the start of \<open>s\<close>, directly
      followed by a character satisfying \<open>t\<close>\<close>
  "token_before t s g =
     (g \<noteq> [] \<and> list_all ident_char g \<and> length g < length s \<and> take (length g) s = g
      \<and> t (s ! length g))"

definition brace_at :: "string \<Rightarrow> nat \<Rightarrow> string \<Rightarrow> bool" where
  \<comment> \<open>at position \<open>i\<close> of \<open>s\<close> stands \<open>{\<close>, then the identifier \<open>g\<close>, then \<open>/\<close>\<close>
  "brace_at s i g =
     (i < length s \<and> s ! i = CHR ''{'' \<and> token_before (\<lambda>c. c = CHR ''/'') (drop (Suc i) s) g)"

definition first_brace_token :: "string \<Rightarrow> string \<Rightarrow> bool" where
  \<comment> \<open>(a) \<open>g\<close> is the identifier of the leftmost \<open>{identifier/\<close> in \<open>s\<close>\<close>
  "first_brace_token s g = (\<exists>i. brace_at s i g \<and> (\<forall>j g'. j < i \<longrightarrow> \<not> brace_at s j g'))"

definition lead_token :: "string \<Rightarrow> string \<Rightarrow> bool" where
  \<comment> \<open>(b) \<open>g\<close> is a leading identifier of \<open>s\<close> terminated by \<open>/\<close> or a space\<close>
  "lead_token s g = token_before (\<lambda>c. c = CHR ''/'' \<or> c = CHR '' '') s g"

definition bare_identifier :: "string \<Rightarrow> bool" where
  \<comment> \<open>(c) \<open>s\<close> consists of letters, digits, dots and underscores only\<close>
  "bare_identifier s = (s \<noteq> [] \<and> list_all ident_char s)"

definition dotted_at :: "string \<Rightarrow> nat \<Rightarrow> string \<Rightarrow> bool" where
  \<comment> \<open>at position \<open>i\<close> of \<open>s\<close> starts the identifier string \<open>g\<close>, directly followed by a dot\<close>
  "dotted_at s i g = (i \<le> length s \<and> token_before (\<lambda>c. c = CHR ''.'') (drop i s) g)"

definition first_dotted :: "string \<Rightarrow> string \<Rightarrow> bool" where
  \<comment> \<open>(d) \<open>g\<close> is the longest identifier string followed by a dot that starts at the
      leftmost position of \<open>s\<close> where one starts\<close>
  "first_dotted s g =
     (\<exists>i. dotted_at s i g \<and> (\<forall>g'. dotted_at s i g' \<longrightarrow> length g' \<le> length g)
          \<and> (\<forall>j g'. j < i \<longrightarrow> \<not> dotted_at s j g'))"

section \<open>Properties\<close>

subsection \<open>Snapshot score\<close>

lemma fold_score_count:
  "fold (\<lambda>r score. if P r then score + 1 else score) rs (k :: int) = k + int (length (filter P rs))"
  by (induction rs arbitrary: k) auto

lemma snapshot_score_count:
  "snapshot_score_for_pkg idx df pkg =
     int (length (filter (row_scores idx) (filter (\<lambda>r. rct_pkg2 r = pkg) df)))"
proof (cases "filter (\<lambda>r. rct_pkg2 r = pkg) df = []")
  case True
  then show ?thesis
    unfolding snapshot_score_for_pkg_def Let_def by simp
next
  case False
  then show ?thesis
    unfolding snapshot_score_for_pkg_def Let_def by (simp add: fold_score_count)
qed

text \<open>
  C8. The snapshot score of a package counts the RecentTasks rows of the package for
  which the loop body finds a snapshot, each row once: it is at most the number of
  RecentTasks rows of the package, it is computed from the RecentTasks table and the
  index alone (UsageStats rows are no argument of it), and a package with no
  RecentTasks row scores 0.
\<close>

theorem C8_score_bounded_by_task_rows:
  "snapshot_score_for_pkg idx df_rct2 pkg
     = int (length (filter (\<lambda>r. rct_pkg2 r = pkg \<and> row_scores idx r) df_rct2))
   \<and> 0 \<le> snapshot_score_for_pkg idx df_rct2 pkg
   \<and> snapshot_score_for_pkg idx df_rct2 pkg
       \<le> int (length (filter (\<lambda>r. rct_pkg2 r = pkg) df_rct2))
   \<and> ((\<forall>r \<in> set df_rct2. rct_pkg2 r \<noteq> pkg) \<longrightarrow> snapshot_score_for_pkg idx df_rct2 pkg = 0)"
proof -
  let ?sub = "filter (\<lambda>r. rct_pkg2 r = pkg) df_rct2"
  have cnt: "snapshot_score_for_pkg idx df_rct2 pkg = int (length (filter (row_scores idx) ?sub))"
    by (rule snapshot_score_count)
  have le: "length (filter (row_scores idx) ?sub) \<le> length ?sub"
    by (rule length_filter_le)
  have conj: "filter (row_scores idx) ?sub
                = filter (\<lambda>r. rct_pkg2 r = pkg \<and> row_scores idx r) df_rct2"
    by (simp add: conj_commute)
  have none: "(\<forall>r \<in> set df_rct2. rct_pkg2 r \<noteq> pkg) \<longrightarrow> ?sub = []"
    by (simp add: filter_empty_conv)
  show ?thesis
    using cnt le conj none by auto
qed

theorem C8_witness:
  "filter (\<lambda>r. rct_pkg2 r = ''aa.usage.only'') demo_rct = []
   \<and> snapshot_score_for_pkg demo_index demo_rct ''aa.usage.only'' = 0
   \<and> length (filter (\<lambda>r. rct_pkg2 r = ''app.demo'') demo_rct) = 2
   \<and> snapshot_score_for_pkg demo_index demo_rct ''app.demo'' \<le> 2"
proof -
  have h: "filter (\<lambda>r. rct_pkg2 r = ''aa.usage.only'') demo_rct = []"
    by code_simp
  have n: "length (filter (\<lambda>r. rct_pkg2 r = ''app.demo'') demo_rct) = 2"
    by code_simp
  from h have h': "\<forall>r \<in> set demo_rct. rct_pkg2 r \<noteq> ''aa.usage.only''"
    by (simp add: filter_empty_conv)
  show ?thesis
    using h h' n C8_score_bounded_by_task_rows [of demo_index demo_rct "''aa.usage.only''"]
      C8_score_bounded_by_task_rows [of demo_index demo_rct "''app.demo''"]
    by simp
qed

subsection \<open>Order of the packages\<close>

lemma sorted_key_precedes:
  assumes srt: "sorted (map f ps)" and x: "x \<in> set ps" and y: "y \<in> set ps"
    and lt: "f x < f y"
  shows "precedes x y ps"
proof -
  from x obtain i where i: "i < length ps" "ps ! i = x" by (auto simp: in_set_conv_nth)
  from y obtain j where j: "j < length ps" "ps ! j = y" by (auto simp: in_set_conv_nth)
  have "i < j"
  proof (rule ccontr)
    assume "\<not> i < j"
    then have "j \<le> i" by simp
    with srt i(1) have "map f ps ! j \<le> map f ps ! i"
      by (simp add: sorted_iff_nth_mono)
    with i j have "f y \<le> f x" by simp
    with lt show False by simp
  qed
  with i j show ?thesis unfolding precedes_def by blast
qed

lemma distinct_precedes_asym:
  assumes "distinct ps"
  shows "\<not> (precedes x y ps \<and> precedes y x ps)"
proof
  assume "precedes x y ps \<and> precedes y x ps"
  then obtain i j i' j' where
    ij: "i < j" "j < length ps" "ps ! i = x" "ps ! j = y" and
    ij': "i' < j'" "j' < length ps" "ps ! i' = y" "ps ! j' = x"
    unfolding precedes_def by blast
  from assms ij ij' have "i = j'" "j = i'"
    by (auto simp: nth_eq_iff_index_eq)
  with ij(1) ij'(1) show False by simp
qed

lemma set_pkgs:
  "set (pkgs idx R U) = set (map rct_pkg2 R) \<union> set (map usg_pkg2 U)"
  by (simp add: pkgs_def pkgs_all_def)

lemma distinct_pkgs: "distinct (pkgs idx R U)"
  by (simp add: pkgs_def pkgs_all_def)

lemma sorted_pkgs:
  "sorted (map (\<lambda>x. (- snapshot_score_for_pkg idx R x, x)) (pkgs idx R U))"
  by (simp add: pkgs_def)

text \<open>
  C6. The packages are listed by decreasing snapshot score and, among packages of equal
  score, by increasing name: of two listed packages the one with the higher score stands
  first whatever their names, and of two with equal scores the one with the smaller name
  stands first. No package is listed twice.
\<close>

theorem C6_ranking:
  assumes "X \<in> set (pkgs idx R U)" and "Y \<in> set (pkgs idx R U)"
  shows "(snapshot_score_for_pkg idx R X > snapshot_score_for_pkg idx R Y
            \<longrightarrow> precedes X Y (pkgs idx R U))
       \<and> (snapshot_score_for_pkg idx R X = snapshot_score_for_pkg idx R Y \<and> X < Y
            \<longrightarrow> precedes X Y (pkgs idx R U))
       \<and> \<not> (precedes X Y (pkgs idx R U) \<and> precedes Y X (pkgs idx R U))"
proof -
  let ?ps = "pkgs idx R U"
  let ?f = "\<lambda>x. (- snapshot_score_for_pkg idx R x, x)"
  have srt: "sorted (map ?f ?ps)" by (rule sorted_pkgs)
  have a: "precedes X Y ?ps"
    if "snapshot_score_for_pkg idx R X > snapshot_score_for_pkg idx R Y"
  proof -
    from that have "?f X < ?f Y" by (simp add: less_prod_def)
    with srt assms show ?thesis by (rule_tac sorted_key_precedes [where f = ?f]) auto
  qed
  have b: "precedes X Y ?ps"
    if "snapshot_score_for_pkg idx R X = snapshot_score_for_pkg idx R Y \<and> X < Y"
  proof -
    from that have "?f X < ?f Y" by (simp add: less_prod_def)
    with srt assms show ?thesis by (rule_tac sorted_key_precedes [where f = ?f]) auto
  qed
  have c: "\<not> (precedes X Y ?ps \<and> precedes Y X ?ps)"
    using distinct_pkgs [of idx R U] by (rule distinct_precedes_asym)
  from a b c show ?thesis by blast
qed


theorem C6_witness:
  "''app.demo'' \<in> set (pkgs demo_index demo_rct demo_usg)
   \<and> ''aa.usage.only'' \<in> set (pkgs demo_index demo_rct demo_usg)
   \<and> snapshot_score_for_pkg demo_index demo_rct ''app.demo''
       > snapshot_score_for_pkg demo_index demo_rct ''aa.usage.only''
   \<and> ''aa.usage.only'' < ''app.demo''
   \<and> precedes ''app.demo'' ''aa.usage.only'' (pkgs demo_index demo_rct demo_usg)"
proof -
  have m1: "''app.demo'' \<in> set (pkgs demo_index demo_rct demo_usg)" by code_simp
  have m2: "''aa.usage.only'' \<in> set (pkgs demo_index demo_rct demo_usg)" by code_simp
  have s: "snapshot_score_for_pkg demo_index demo_rct ''app.demo''
             > snapshot_score_for_pkg demo_index demo_rct ''aa.usage.only''" by code_simp
  have l: "''aa.usage.only'' < ''app.demo''" by simp
  from C6_ranking [OF m1 m2] s have "precedes ''app.demo'' ''aa.usage.only'' (pkgs demo_index demo_rct demo_usg)"
    by blast
  with m1 m2 s l show ?thesis by blast
qed

subsection \<open>Minute-key sets and row classes\<close>

lemma set_dropna: "set (dropna xs) = {x. Some x \<in> set xs}"
  by (induction xs) (auto simp: dropna_def List.map_filter_simps split: option.splits)

lemma map_fst_keyed_enumerate:
  "map fst (map (\<lambda>(i, x). (f x, i)) (enumerate n xs)) = map f xs"
  by (induction xs arbitrary: n) auto

lemma set_nonempty_keys:
  "set (map fst (filter (\<lambda>(m, i). m \<noteq> []) ps)) = {m \<in> set (map fst ps). m \<noteq> []}"
  by (induction ps) auto

lemma nonempty_keys_of_column:
  assumes none: "f None = []"
  shows "set (map fst (filter (\<lambda>(m, i). m \<noteq> [])
            (map (\<lambda>(i, x). (f (Some x), i)) (enumerate 0 (dropna (map col rows))))))
         = {k. k \<noteq> [] \<and> (\<exists>r \<in> set rows. f (col r) = k)}"
    (is "?L = ?R")
proof -
  have L: "?L = {m \<in> (\<lambda>x. f (Some x)) ` {x. Some x \<in> col ` set rows}. m \<noteq> []}"
    unfolding set_nonempty_keys map_fst_keyed_enumerate by (simp add: set_dropna)
  show ?thesis
  proof (rule set_eqI)
    fix k
    show "k \<in> ?L \<longleftrightarrow> k \<in> ?R"
    proof
      assume "k \<in> ?L"
      with L obtain x where x: "Some x \<in> col ` set rows" "k = f (Some x)" "k \<noteq> []"
        by auto
      then obtain r where "r \<in> set rows" "col r = Some x" by force
      with x show "k \<in> ?R" by auto
    next
      assume "k \<in> ?R"
      then obtain r where r: "r \<in> set rows" "f (col r) = k" "k \<noteq> []" by auto
      with none obtain x where "col r = Some x" by (cases "col r") auto
      with r have "Some x \<in> col ` set rows" "k = f (Some x)" by force+
      with r(3) L show "k \<in> ?L" by auto
    qed
  qed
qed

lemma usg_min_set_rows:
  "usg_min_set U pkg =
     {k. k \<noteq> [] \<and> (\<exists>r \<in> set (sub_u U pkg). minute_key_from_usg (last_time_kst r) = k)}"
  unfolding usg_min_set_def usg_minutes_def
  by (rule nonempty_keys_of_column) (simp add: minute_key_from_usg_def)

lemma rct_min_set_rows:
  "rct_min_set P R pkg =
     {k. k \<noteq> [] \<and> (\<exists>r \<in> set (sub_r R pkg).
                          minute_key_from_rct_utc_to_kst P (last_time_moved_utc r) = k)}"
  unfolding rct_min_set_def rct_minutes_def
  by (rule nonempty_keys_of_column) (simp add: minute_key_from_rct_utc_to_kst_def)

lemma empty_key_not_common: "[] \<notin> intersect_minutes P R U pkg"
  by (simp add: intersect_minutes_def usg_min_set_rows)

lemma classify_Blue_iff: "[] \<notin> common \<Longrightarrow> classify common own other mk = Blue \<longleftrightarrow> mk \<in> common"
  by (auto simp: classify_def)

lemma classify_Red_iff:
  "classify common own other mk = Red \<longleftrightarrow>
     mk \<noteq> [] \<and> mk \<notin> common \<and> mk = own \<and> other \<noteq> [] \<and> own \<noteq> other"
  by (auto simp: classify_def)

lemma fst_usg_table: "map fst (usg_table P R U pkg) = sort_values_desc (sub_u U pkg)"
  by (simp add: usg_table_def comp_def)

lemma fst_rct_table: "map fst (rct_table P R U pkg) = sub_r R pkg"
  by (simp add: rct_table_def comp_def)

lemma set_sort_values_desc: "set (sort_values_desc rows) = set rows"
  by (auto simp: sort_values_desc_def)

text \<open>
  C1. In the UsageStats table of a package a row is blue exactly when its minute key
  lies in \<open>intersect_minutes\<close>, and likewise in its RecentTasks table. The tables hold
  exactly the rows of the package, and \<open>intersect_minutes\<close> is the set of the non-empty
  minute keys that a UsageStats row and a RecentTasks row of the package share.
\<close>

theorem C1_matched_iff_common_minute:
  "(\<forall>(r, c) \<in> set (usg_table P R U pkg).
       c = Blue \<longleftrightarrow> minute_key_from_usg (last_time_kst r) \<in> intersect_minutes P R U pkg)
   \<and> (\<forall>(r, c) \<in> set (rct_table P R U pkg).
       c = Blue \<longleftrightarrow> minute_key_from_rct_utc_to_kst P (last_time_moved_utc r)
                         \<in> intersect_minutes P R U pkg)
   \<and> fst ` set (usg_table P R U pkg) = {r \<in> set U. usg_pkg2 r = pkg}
   \<and> fst ` set (rct_table P R U pkg) = {r \<in> set R. rct_pkg2 r = pkg}
   \<and> intersect_minutes P R U pkg =
       {k. k \<noteq> []
           \<and> (\<exists>a \<in> set U. usg_pkg2 a = pkg \<and> minute_key_from_usg (last_time_kst a) = k)
           \<and> (\<exists>b \<in> set R. rct_pkg2 b = pkg
                  \<and> minute_key_from_rct_utc_to_kst P (last_time_moved_utc b) = k)}"
proof -
  have a: "\<forall>(r, c) \<in> set (usg_table P R U pkg).
       c = Blue \<longleftrightarrow> minute_key_from_usg (last_time_kst r) \<in> intersect_minutes P R U pkg"
    by (auto simp: usg_table_def classify_Blue_iff [OF empty_key_not_common])
  have b: "\<forall>(r, c) \<in> set (rct_table P R U pkg).
       c = Blue \<longleftrightarrow> minute_key_from_rct_utc_to_kst P (last_time_moved_utc r)
                         \<in> intersect_minutes P R U pkg"
    by (auto simp: rct_table_def classify_Blue_iff [OF empty_key_not_common])
  have c: "fst ` set (usg_table P R U pkg) = {r \<in> set U. usg_pkg2 r = pkg}"
  proof -
    have "fst ` set (usg_table P R U pkg) = set (map fst (usg_table P R U pkg))" by simp
    also have "\<dots> = set (sub_u U pkg)" by (simp only: fst_usg_table set_sort_values_desc)
    finally show ?thesis by (simp add: sub_u_def)
  qed
  have d: "fst ` set (rct_table P R U pkg) = {r \<in> set R. rct_pkg2 r = pkg}"
  proof -
    have "fst ` set (rct_table P R U pkg) = set (map fst (rct_table P R U pkg))" by simp
    also have "\<dots> = set (sub_r R pkg)" by (simp only: fst_rct_table)
    finally show ?thesis by (simp add: sub_r_def)
  qed
  have e: "intersect_minutes P R U pkg =
       {k. k \<noteq> []
           \<and> (\<exists>a \<in> set U. usg_pkg2 a = pkg \<and> minute_key_from_usg (last_time_kst a) = k)
           \<and> (\<exists>b \<in> set R. rct_pkg2 b = pkg
                  \<and> minute_key_from_rct_utc_to_kst P (last_time_moved_utc b) = k)}"
    unfolding intersect_minutes_def usg_min_set_rows rct_min_set_rows sub_u_def sub_r_def
    by auto
  from a b c d e show ?thesis by blast
qed

subsection \<open>The tables of the concrete inputs\<close>

lemma demo_usg_table:
  "usg_table fromisoformat demo_rct demo_usg ''app.demo''
     = [(demo_usg ! 1, Red), (demo_usg ! 0, Blue)]"
  by code_simp

lemma demo_rct_table:
  "rct_table fromisoformat demo_rct demo_usg ''app.demo''
     = [(demo_rct ! 0, Red), (demo_rct ! 1, Blue)]"
  by code_simp

theorem C1_witness:
  "(demo_usg ! 0, Blue) \<in> set (usg_table fromisoformat demo_rct demo_usg ''app.demo'')
   \<and> minute_key_from_usg (last_time_kst (demo_usg ! 0))
       \<in> intersect_minutes fromisoformat demo_rct demo_usg ''app.demo''
   \<and> (demo_rct ! 1, Blue) \<in> set (rct_table fromisoformat demo_rct demo_usg ''app.demo'')
   \<and> minute_key_from_rct_utc_to_kst fromisoformat (last_time_moved_utc (demo_rct ! 1))
       \<in> intersect_minutes fromisoformat demo_rct demo_usg ''app.demo''
   \<and> (demo_usg ! 1, Red) \<in> set (usg_table fromisoformat demo_rct demo_usg ''app.demo'')
   \<and> minute_key_from_usg (last_time_kst (demo_usg ! 1))
       \<notin> intersect_minutes fromisoformat demo_rct demo_usg ''app.demo''"
proof -
  have a: "(demo_usg ! 0, Blue) \<in> set (usg_table fromisoformat demo_rct demo_usg ''app.demo'')"
    by (simp add: demo_usg_table)
  have b: "(demo_rct ! 1, Blue) \<in> set (rct_table fromisoformat demo_rct demo_usg ''app.demo'')"
    by (simp add: demo_rct_table)
  have c: "(demo_usg ! 1, Red) \<in> set (usg_table fromisoformat demo_rct demo_usg ''app.demo'')"
    by (simp add: demo_usg_table)
  note C1 = C1_matched_iff_common_minute [of fromisoformat demo_rct demo_usg "''app.demo''"]
  from C1 have u: "\<forall>(r, c) \<in> set (usg_table fromisoformat demo_rct demo_usg ''app.demo'').
       c = Blue \<longleftrightarrow> minute_key_from_usg (last_time_kst r)
                     \<in> intersect_minutes fromisoformat demo_rct demo_usg ''app.demo''"
    by (rule conjunct1)
  from C1 have r: "\<forall>(r, c) \<in> set (rct_table fromisoformat demo_rct demo_usg ''app.demo'').
       c = Blue \<longleftrightarrow> minute_key_from_rct_utc_to_kst fromisoformat (last_time_moved_utc r)
                     \<in> intersect_minutes fromisoformat demo_rct demo_usg ''app.demo''"
    by (rule conjunct1 [OF conjunct2])
  from bspec [OF u a] have a': "minute_key_from_usg (last_time_kst (demo_usg ! 0))
       \<in> intersect_minutes fromisoformat demo_rct demo_usg ''app.demo''" by simp
  from bspec [OF r b] have b': "minute_key_from_rct_utc_to_kst fromisoformat
        (last_time_moved_utc (demo_rct ! 1))
       \<in> intersect_minutes fromisoformat demo_rct demo_usg ''app.demo''" by simp
  from bspec [OF u c] have c': "minute_key_from_usg (last_time_kst (demo_usg ! 1))
       \<notin> intersect_minutes fromisoformat demo_rct demo_usg ''app.demo''" by simp
  from a b c a' b' c' show ?thesis by (intro conjI)
qed

subsection \<open>The most recent minute and the red rows\<close>

lemma finite_usg_min_set: "finite (usg_min_set U pkg)"
  by (simp add: usg_min_set_def)

lemma finite_rct_min_set: "finite (rct_min_set P R pkg)"
  by (simp add: rct_min_set_def)

lemma max_or_empty_props:
  assumes "finite S" and "[] \<notin> S"
  shows "(S = {} \<longleftrightarrow> max_or_empty S = [])
       \<and> (S \<noteq> {} \<longrightarrow> max_or_empty S \<in> S \<and> (\<forall>k \<in> S. k \<le> max_or_empty S))"
proof (cases "S = {}")
  case True
  then show ?thesis by (simp add: max_or_empty_def)
next
  case False
  with assms have "Max S \<in> S" "\<forall>k \<in> S. k \<le> Max S" by auto
  with False assms(2) show ?thesis by (auto simp: max_or_empty_def)
qed

text \<open>
  C2, amended. A red row of the UsageStats table of a package has the most recent
  UsageStats minute of the package as its minute key, and there are red rows only when
  both most recent minutes are non-empty and differ; likewise for the RecentTasks table
  and the most recent RecentTasks minute. The most recent minute of a table is the
  greatest of its non-empty minute keys, and is empty exactly when there is none. (All
  rows of the most recent minute are red together: the table may hold several.)
\<close>

theorem C2_red_rows_share_most_recent_minute:
  "(\<forall>(r, c) \<in> set (usg_table P R U pkg).
       c = Red \<longrightarrow>
         minute_key_from_usg (last_time_kst r) = most_recent_usg_min U pkg
         \<and> most_recent_usg_min U pkg \<noteq> [] \<and> most_recent_rct_min P R pkg \<noteq> []
         \<and> most_recent_usg_min U pkg \<noteq> most_recent_rct_min P R pkg)
   \<and> (\<forall>(r, c) \<in> set (rct_table P R U pkg).
       c = Red \<longrightarrow>
         minute_key_from_rct_utc_to_kst P (last_time_moved_utc r) = most_recent_rct_min P R pkg
         \<and> most_recent_usg_min U pkg \<noteq> [] \<and> most_recent_rct_min P R pkg \<noteq> []
         \<and> most_recent_usg_min U pkg \<noteq> most_recent_rct_min P R pkg)
   \<and> (\<forall>k \<in> usg_min_set U pkg. k \<le> most_recent_usg_min U pkg)
   \<and> (\<forall>k \<in> rct_min_set P R pkg. k \<le> most_recent_rct_min P R pkg)
   \<and> (most_recent_usg_min U pkg = [] \<longleftrightarrow> usg_min_set U pkg = {})
   \<and> (most_recent_rct_min P R pkg = [] \<longleftrightarrow> rct_min_set P R pkg = {})"
proof -
  have a: "\<forall>(r, c) \<in> set (usg_table P R U pkg).
       c = Red \<longrightarrow>
         minute_key_from_usg (last_time_kst r) = most_recent_usg_min U pkg
         \<and> most_recent_usg_min U pkg \<noteq> [] \<and> most_recent_rct_min P R pkg \<noteq> []
         \<and> most_recent_usg_min U pkg \<noteq> most_recent_rct_min P R pkg"
    by (auto simp: usg_table_def classify_Red_iff)
  have b: "\<forall>(r, c) \<in> set (rct_table P R U pkg).
       c = Red \<longrightarrow>
         minute_key_from_rct_utc_to_kst P (last_time_moved_utc r) = most_recent_rct_min P R pkg
         \<and> most_recent_usg_min U pkg \<noteq> [] \<and> most_recent_rct_min P R pkg \<noteq> []
         \<and> most_recent_usg_min U pkg \<noteq> most_recent_rct_min P R pkg"
    by (auto simp: rct_table_def classify_Red_iff)
  have u: "[] \<notin> usg_min_set U pkg" by (simp add: usg_min_set_rows)
  have r: "[] \<notin> rct_min_set P R pkg" by (simp add: rct_min_set_rows)
  note mu = max_or_empty_props [OF finite_usg_min_set u, folded most_recent_usg_min_def]
  note mr = max_or_empty_props [OF finite_rct_min_set r, folded most_recent_rct_min_def]
  from a b mu mr show ?thesis by blast
qed

text \<open>
  Two UsageStats events of one package within its most recent minute are both red.
\<close>

theorem C2_counterexample:
  "\<not> length (filter (\<lambda>(r, c). c = Red)
               (usg_table fromisoformat demo_rct twin_usg ''app.demo'')) \<le> 1"
  by code_simp

theorem C2_witness:
  "(demo_usg ! 1, Red) \<in> set (usg_table fromisoformat demo_rct demo_usg ''app.demo'')
   \<and> minute_key_from_usg (last_time_kst (demo_usg ! 1))
       = most_recent_usg_min demo_usg ''app.demo''
   \<and> most_recent_usg_min demo_usg ''app.demo'' \<noteq> []
   \<and> most_recent_rct_min fromisoformat demo_rct ''app.demo'' \<noteq> []
   \<and> most_recent_usg_min demo_usg ''app.demo''
       \<noteq> most_recent_rct_min fromisoformat demo_rct ''app.demo''"
proof -
  have c: "(demo_usg ! 1, Red) \<in> set (usg_table fromisoformat demo_rct demo_usg ''app.demo'')"
    by (simp add: demo_usg_table)
  from C2_red_rows_share_most_recent_minute [of fromisoformat demo_rct demo_usg "''app.demo''"]
  have u: "\<forall>(r, c) \<in> set (usg_table fromisoformat demo_rct demo_usg ''app.demo'').
       c = Red \<longrightarrow>
         minute_key_from_usg (last_time_kst r) = most_recent_usg_min demo_usg ''app.demo''
         \<and> most_recent_usg_min demo_usg ''app.demo'' \<noteq> []
         \<and> most_recent_rct_min fromisoformat demo_rct ''app.demo'' \<noteq> []
         \<and> most_recent_usg_min demo_usg ''app.demo''
             \<noteq> most_recent_rct_min fromisoformat demo_rct ''app.demo''"
    by (rule conjunct1)
  from bspec [OF u c] c show ?thesis by simp
qed

subsection \<open>The scenario of two shared and two unshared minutes\<close>

lemma max_or_empty_pair:
  "a < b \<Longrightarrow> max_or_empty {a, b} = b"
  by (auto simp: max_or_empty_def max_def)

text \<open>
  C3. When the UsageStats minute keys of a package are 10:05 and 10:09 and its
  RecentTasks minute keys are 10:05 and 10:12 (of 2024-01-01), the common minutes are
  exactly 10:05, the UsageStats rows at 10:09 and the RecentTasks rows at 10:12 are
  red, the rows at 10:05 are blue in both tables, and each table has such rows.
\<close>

theorem C3_scenario:
  assumes A: "usg_min_set U pkg = {''2024-01-01 10:05'', ''2024-01-01 10:09''}"
    and B: "rct_min_set P R pkg = {''2024-01-01 10:05'', ''2024-01-01 10:12''}"
  shows "intersect_minutes P R U pkg = {''2024-01-01 10:05''}
    \<and> (\<forall>(r, c) \<in> set (usg_table P R U pkg).
          (minute_key_from_usg (last_time_kst r) = ''2024-01-01 10:09'' \<longrightarrow> c = Red)
          \<and> (minute_key_from_usg (last_time_kst r) = ''2024-01-01 10:05'' \<longrightarrow> c = Blue))
    \<and> (\<forall>(r, c) \<in> set (rct_table P R U pkg).
          (minute_key_from_rct_utc_to_kst P (last_time_moved_utc r) = ''2024-01-01 10:12''
             \<longrightarrow> c = Red)
          \<and> (minute_key_from_rct_utc_to_kst P (last_time_moved_utc r) = ''2024-01-01 10:05''
             \<longrightarrow> c = Blue))
    \<and> (\<exists>(r, c) \<in> set (usg_table P R U pkg).
          minute_key_from_usg (last_time_kst r) = ''2024-01-01 10:09'')
    \<and> (\<exists>(r, c) \<in> set (usg_table P R U pkg).
          minute_key_from_usg (last_time_kst r) = ''2024-01-01 10:05'')
    \<and> (\<exists>(r, c) \<in> set (rct_table P R U pkg).
          minute_key_from_rct_utc_to_kst P (last_time_moved_utc r) = ''2024-01-01 10:12'')
    \<and> (\<exists>(r, c) \<in> set (rct_table P R U pkg).
          minute_key_from_rct_utc_to_kst P (last_time_moved_utc r) = ''2024-01-01 10:05'')"
proof -
  have I: "intersect_minutes P R U pkg = {''2024-01-01 10:05''}"
    unfolding intersect_minutes_def A B by auto
  have mu: "most_recent_usg_min U pkg = ''2024-01-01 10:09''"
    unfolding most_recent_usg_min_def A by (rule max_or_empty_pair) simp
  have mr: "most_recent_rct_min P R pkg = ''2024-01-01 10:12''"
    unfolding most_recent_rct_min_def B by (rule max_or_empty_pair) simp
  have u: "\<forall>(r, c) \<in> set (usg_table P R U pkg).
          (minute_key_from_usg (last_time_kst r) = ''2024-01-01 10:09'' \<longrightarrow> c = Red)
          \<and> (minute_key_from_usg (last_time_kst r) = ''2024-01-01 10:05'' \<longrightarrow> c = Blue)"
    unfolding usg_table_def I mu mr by (auto simp: classify_def)
  have r: "\<forall>(r, c) \<in> set (rct_table P R U pkg).
          (minute_key_from_rct_utc_to_kst P (last_time_moved_utc r) = ''2024-01-01 10:12''
             \<longrightarrow> c = Red)
          \<and> (minute_key_from_rct_utc_to_kst P (last_time_moved_utc r) = ''2024-01-01 10:05''
             \<longrightarrow> c = Blue)"
    unfolding rct_table_def I mu mr by (auto simp: classify_def)
  have eu: "\<exists>(r, c) \<in> set (usg_table P R U pkg). minute_key_from_usg (last_time_kst r) = k"
    if "k \<in> usg_min_set U pkg" for k
  proof -
    from that obtain a where "a \<in> set (sub_u U pkg)" "minute_key_from_usg (last_time_kst a) = k"
      unfolding usg_min_set_rows by auto
    then show ?thesis
      by (auto simp: usg_table_def set_sort_values_desc intro!: bexI [of _ a])
  qed
  have er: "\<exists>(r, c) \<in> set (rct_table P R U pkg).
              minute_key_from_rct_utc_to_kst P (last_time_moved_utc r) = k"
    if "k \<in> rct_min_set P R pkg" for k
  proof -
    from that obtain b where "b \<in> set (sub_r R pkg)"
      "minute_key_from_rct_utc_to_kst P (last_time_moved_utc b) = k"
      unfolding rct_min_set_rows by auto
    then show ?thesis
      by (auto simp: rct_table_def intro!: bexI [of _ b])
  qed
  have e1: "\<exists>(r, c) \<in> set (usg_table P R U pkg).
          minute_key_from_usg (last_time_kst r) = ''2024-01-01 10:09''"
    by (rule eu) (simp add: A)
  have e2: "\<exists>(r, c) \<in> set (usg_table P R U pkg).
          minute_key_from_usg (last_time_kst r) = ''2024-01-01 10:05''"
    by (rule eu) (simp add: A)
  have e3: "\<exists>(r, c) \<in> set (rct_table P R U pkg).
          minute_key_from_rct_utc_to_kst P (last_time_moved_utc r) = ''2024-01-01 10:12''"
    by (rule er) (simp add: B)
  have e4: "\<exists>(r, c) \<in> set (rct_table P R U pkg).
          minute_key_from_rct_utc_to_kst P (last_time_moved_utc r) = ''2024-01-01 10:05''"
    by (rule er) (simp add: B)
  from I u r e1 e2 e3 e4 show ?thesis by (intro conjI)
qed

lemma demo_usg_min_set:
  "usg_min_set demo_usg ''app.demo'' = {''2024-01-01 10:05'', ''2024-01-01 10:09''}"
  by code_simp

lemma demo_rct_min_set:
  "rct_min_set fromisoformat demo_rct ''app.demo'' = {''2024-01-01 10:05'', ''2024-01-01 10:12''}"
  by code_simp

theorem C3_witness:
  "usg_min_set demo_usg ''app.demo'' = {''2024-01-01 10:05'', ''2024-01-01 10:09''}
   \<and> rct_min_set fromisoformat demo_rct ''app.demo''
       = {''2024-01-01 10:05'', ''2024-01-01 10:12''}
   \<and> intersect_minutes fromisoformat demo_rct demo_usg ''app.demo'' = {''2024-01-01 10:05''}
   \<and> usg_table fromisoformat demo_rct demo_usg ''app.demo''
       = [(demo_usg ! 1, Red), (demo_usg ! 0, Blue)]
   \<and> rct_table fromisoformat demo_rct demo_usg ''app.demo''
       = [(demo_rct ! 0, Red), (demo_rct ! 1, Blue)]"
  using C3_scenario [OF demo_usg_min_set demo_rct_min_set] demo_usg_min_set demo_rct_min_set
    demo_usg_table demo_rct_table
  by (intro conjI) (simp_all only: simp_thms)

subsection \<open>Order of the rows\<close>

lemma kst_of_valued: "last_time_kst r \<noteq> None \<Longrightarrow> last_time_kst r = Some (kst_or_empty r)"
  by (auto simp: kst_or_empty_def)

lemma kst_column_sort_values_desc:
  "map last_time_kst (sort_values_desc rows)
     = map Some (rev (sort (map kst_or_empty (filter (\<lambda>r. last_time_kst r \<noteq> None) rows))))
       @ replicate (length (filter (\<lambda>r. last_time_kst r = None) rows)) None"
proof -
  define nn where "nn = filter (\<lambda>r. last_time_kst r \<noteq> None) rows"
  define nl where "nl = filter (\<lambda>r. last_time_kst r = None) rows"
  define s where "s = sort_key kst_or_empty (rev nn)"
  have "\<And>r. r \<in> set s \<Longrightarrow> last_time_kst r = Some (kst_or_empty r)"
    unfolding s_def nn_def by (auto intro: kst_of_valued)
  then have 1: "map last_time_kst s = map Some (map kst_or_empty s)"
    by (simp add: comp_def)
  have 2: "map kst_or_empty s = sort (map kst_or_empty nn)"
    unfolding s_def by (rule properties_for_sort [symmetric]) simp_all
  have 3: "map last_time_kst nl = replicate (length nl) None"
    unfolding nl_def by (induction rows) auto
  have "map last_time_kst (rev s) = rev (map last_time_kst s)"
    by (simp add: rev_map)
  also have "\<dots> = rev (map Some (sort (map kst_or_empty nn)))"
    by (simp only: 1 2)
  also have "\<dots> = map Some (rev (sort (map kst_or_empty nn)))"
    by (simp add: rev_map)
  finally have 4: "map last_time_kst (rev s) = map Some (rev (sort (map kst_or_empty nn)))" .
  have "sort_values_desc rows = rev s @ nl"
    by (simp add: sort_values_desc_def s_def nn_def nl_def)
  then have "map last_time_kst (sort_values_desc rows)
               = map last_time_kst (rev s) @ map last_time_kst nl"
    by simp
  with 3 4 have "map last_time_kst (sort_values_desc rows)
               = map Some (rev (sort (map kst_or_empty nn))) @ replicate (length nl) None"
    by simp
  then show ?thesis
    unfolding nn_def nl_def .
qed

lemma sorted_wrt_kst_desc_column:
  "sorted_wrt kst_desc (map Some (rev (sort ks)) @ replicate n None)"
proof -
  have "sorted_wrt (\<lambda>a b. b \<le> a) (rev (sort ks))"
    by (simp add: sorted_wrt_rev)
  then have "sorted_wrt kst_desc (map Some (rev (sort ks)))"
    by (simp add: sorted_wrt_map kst_desc_def)
  moreover have "sorted_wrt kst_desc (replicate n (None :: string option))"
    by (induction n) (auto simp: kst_desc_def)
  ultimately show ?thesis
    by (auto simp: sorted_wrt_append kst_desc_def)
qed

lemma mset_sort_values_desc: "mset (sort_values_desc rows) = mset rows"
  by (simp add: sort_values_desc_def)

text \<open>
  C10. The UsageStats rows of a package are emitted by descending \<open>last_time_kst\<close>, the
  rows without a value last; they are the rows of the package, each as often as it was
  supplied, and the sequence of their timestamps does not depend on the order in which
  the rows were supplied. The RecentTasks rows of a package are emitted in the order in
  which they were supplied.
\<close>

theorem C10_row_order:
  "sorted_wrt (\<lambda>a b. kst_desc (last_time_kst a) (last_time_kst b))
      (map fst (usg_table P R U pkg))
   \<and> mset (map fst (usg_table P R U pkg)) = filter_mset (\<lambda>r. usg_pkg2 r = pkg) (mset U)
   \<and> (\<forall>U'. mset U' = mset U \<longrightarrow>
         map (last_time_kst \<circ> fst) (usg_table P R U' pkg)
           = map (last_time_kst \<circ> fst) (usg_table P R U pkg))
   \<and> map fst (rct_table P R U pkg) = filter (\<lambda>r. rct_pkg2 r = pkg) R"
proof -
  have a: "sorted_wrt (\<lambda>a b. kst_desc (last_time_kst a) (last_time_kst b))
      (map fst (usg_table P R U pkg))"
  proof -
    have "sorted_wrt kst_desc (map last_time_kst (sort_values_desc (sub_u U pkg)))"
      unfolding kst_column_sort_values_desc by (rule sorted_wrt_kst_desc_column)
    then show ?thesis by (simp add: fst_usg_table sorted_wrt_map)
  qed
  have b: "mset (map fst (usg_table P R U pkg)) = filter_mset (\<lambda>r. usg_pkg2 r = pkg) (mset U)"
    by (simp add: fst_usg_table mset_sort_values_desc sub_u_def)
  have c: "map (last_time_kst \<circ> fst) (usg_table P R U' pkg)
           = map (last_time_kst \<circ> fst) (usg_table P R U pkg)" if eq: "mset U' = mset U" for U'
  proof -
    have col: "map (last_time_kst \<circ> fst) (usg_table P R V pkg)
                 = map last_time_kst (sort_values_desc (sub_u V pkg))" for V
      using fst_usg_table [of P R V pkg] by (metis map_map)
    have sub: "mset (sub_u U' pkg) = mset (sub_u U pkg)"
      using eq by (simp add: sub_u_def)
    have f: "mset (filter Q (sub_u U' pkg)) = mset (filter Q (sub_u U pkg))" for Q
      using sub by (metis mset_filter)
    have s: "sort (map kst_or_empty (filter (\<lambda>r. last_time_kst r \<noteq> None) (sub_u U' pkg)))
           = sort (map kst_or_empty (filter (\<lambda>r. last_time_kst r \<noteq> None) (sub_u U pkg)))"
    proof (rule properties_for_sort)
      show "mset (sort (map kst_or_empty (filter (\<lambda>r. last_time_kst r \<noteq> None) (sub_u U pkg))))
              = mset (map kst_or_empty (filter (\<lambda>r. last_time_kst r \<noteq> None) (sub_u U' pkg)))"
        using f [of "\<lambda>r. last_time_kst r \<noteq> None"] by (metis mset_map mset_sort)
    qed simp
    have n: "length (filter (\<lambda>r. last_time_kst r = None) (sub_u U' pkg))
           = length (filter (\<lambda>r. last_time_kst r = None) (sub_u U pkg))"
      using f [of "\<lambda>r. last_time_kst r = None"] by (metis size_mset)
    show ?thesis
      unfolding col kst_column_sort_values_desc s n ..
  qed
  have d: "map fst (rct_table P R U pkg) = filter (\<lambda>r. rct_pkg2 r = pkg) R"
    by (simp add: fst_rct_table sub_r_def)
  from a b c d show ?thesis by blast
qed

theorem C10_witness:
  "mset (rev demo_usg) = mset demo_usg
   \<and> map (last_time_kst \<circ> fst) (usg_table fromisoformat demo_rct (rev demo_usg) ''app.demo'')
       = [Some ''2024-01-01 10:09:30'', Some ''2024-01-01 10:05:12'']
   \<and> map (last_time_kst \<circ> fst) (usg_table fromisoformat demo_rct demo_usg ''app.demo'')
       = [Some ''2024-01-01 10:09:30'', Some ''2024-01-01 10:05:12'']"
proof -
  have m: "mset (rev demo_usg) = mset demo_usg" by simp
  have e: "map (last_time_kst \<circ> fst) (usg_table fromisoformat demo_rct demo_usg ''app.demo'')
       = [Some ''2024-01-01 10:09:30'', Some ''2024-01-01 10:05:12'']"
    unfolding demo_usg_table by (simp add: demo_usg_def)
  from C10_row_order [of fromisoformat demo_rct demo_usg "''app.demo''"] m
  have "map (last_time_kst \<circ> fst) (usg_table fromisoformat demo_rct (rev demo_usg) ''app.demo'')
       = map (last_time_kst \<circ> fst) (usg_table fromisoformat demo_rct demo_usg ''app.demo'')"
    by blast
  with m e show ?thesis by simp
qed

subsection \<open>Timestamps that do not parse\<close>

lemma py_replace_Nil_iff: "py_replace a b s = [] \<longleftrightarrow> s = []"
  by (simp add: py_replace_def)

lemma strftime_minute_nonempty: "strftime_minute t \<noteq> []"
  by (simp add: strftime_minute_def fmt4_def fmt2_def Let_def)

lemma minute_key_rct_empty_iff:
  "minute_key_from_rct_utc_to_kst P ts = [] \<longleftrightarrow> ts = None \<or> ts = Some []"
  by (auto simp: minute_key_from_rct_utc_to_kst_def strftime_minute_nonempty py_replace_def
      split: option.splits)

text \<open>
  C4, amended. When \<open>fromisoformat\<close> rejects a non-empty RecentTasks timestamp, also
  with its spaces replaced by \<open>T\<close>, the minute key is the first 16 characters of the
  stored text with every \<open>T\<close> replaced by a space, and it is not empty. The minute key
  of a timestamp is empty exactly when the timestamp is NULL or empty: those rows, and
  only those, have the empty minute key. A row with the empty minute key is plain and
  adds nothing to the minute set of its package, and a row with a non-empty minute key
  adds it. Every RecentTasks row of the package is in its table.
\<close>

theorem C4_unparsable_timestamp_key:
  "(P v = None \<and> P (py_replace CHR '' '' CHR ''T'' v) = None \<and> v \<noteq> [] \<longrightarrow>
      minute_key_from_rct_utc_to_kst P (Some v) = take 16 (py_replace CHR ''T'' CHR '' '' v)
      \<and> minute_key_from_rct_utc_to_kst P (Some v) \<noteq> [])
   \<and> (\<forall>(r, c) \<in> set (rct_table P R U pkg).
        last_time_moved_utc r = None \<or> last_time_moved_utc r = Some [] \<longrightarrow>
          minute_key_from_rct_utc_to_kst P (last_time_moved_utc r) = [] \<and> c = Plain)
   \<and> (\<forall>(r, c) \<in> set (rct_table P R U pkg).
        minute_key_from_rct_utc_to_kst P (last_time_moved_utc r) = [] \<longrightarrow> c = Plain)
   \<and> [] \<notin> rct_min_set P R pkg
   \<and> (\<forall>r \<in> set R. rct_pkg2 r = pkg \<and> minute_key_from_rct_utc_to_kst P (last_time_moved_utc r) \<noteq> []
         \<longrightarrow> minute_key_from_rct_utc_to_kst P (last_time_moved_utc r) \<in> rct_min_set P R pkg)
   \<and> map fst (rct_table P R U pkg) = filter (\<lambda>r. rct_pkg2 r = pkg) R
   \<and> (\<forall>ts. minute_key_from_rct_utc_to_kst P ts = [] \<longleftrightarrow> ts = None \<or> ts = Some [])
   \<and> (\<forall>(r, c) \<in> set (rct_table P R U pkg).
        minute_key_from_rct_utc_to_kst P (last_time_moved_utc r) = []
          \<longleftrightarrow> last_time_moved_utc r = None \<or> last_time_moved_utc r = Some [])"
proof -
  have a: "minute_key_from_rct_utc_to_kst P (Some v) = take 16 (py_replace CHR ''T'' CHR '' '' v)
      \<and> minute_key_from_rct_utc_to_kst P (Some v) \<noteq> []"
    if "P v = None \<and> P (py_replace CHR '' '' CHR ''T'' v) = None \<and> v \<noteq> []"
    using that by (cases v) (simp_all add: minute_key_from_rct_utc_to_kst_def py_replace_def)
  have b: "\<forall>(r, c) \<in> set (rct_table P R U pkg).
        last_time_moved_utc r = None \<or> last_time_moved_utc r = Some [] \<longrightarrow>
          minute_key_from_rct_utc_to_kst P (last_time_moved_utc r) = [] \<and> c = Plain"
    by (auto simp: rct_table_def classify_def minute_key_from_rct_utc_to_kst_def)
  have c: "\<forall>(r, c) \<in> set (rct_table P R U pkg).
        minute_key_from_rct_utc_to_kst P (last_time_moved_utc r) = [] \<longrightarrow> c = Plain"
    by (auto simp: rct_table_def classify_def)
  have d: "[] \<notin> rct_min_set P R pkg"
    by (simp add: rct_min_set_rows)
  have e: "\<forall>r \<in> set R. rct_pkg2 r = pkg \<and> minute_key_from_rct_utc_to_kst P (last_time_moved_utc r) \<noteq> []
         \<longrightarrow> minute_key_from_rct_utc_to_kst P (last_time_moved_utc r) \<in> rct_min_set P R pkg"
    by (auto simp: rct_min_set_rows sub_r_def)
  have f: "map fst (rct_table P R U pkg) = filter (\<lambda>r. rct_pkg2 r = pkg) R"
    by (simp add: fst_rct_table sub_r_def)
  have g: "\<forall>ts. minute_key_from_rct_utc_to_kst P ts = [] \<longleftrightarrow> ts = None \<or> ts = Some []"
    by (simp add: minute_key_rct_empty_iff)
  have h: "\<forall>(r, c) \<in> set (rct_table P R U pkg).
        minute_key_from_rct_utc_to_kst P (last_time_moved_utc r) = []
          \<longleftrightarrow> last_time_moved_utc r = None \<or> last_time_moved_utc r = Some []"
    by (simp add: minute_key_rct_empty_iff split_beta)
  from a b c d e f g h show ?thesis by blast
qed

text \<open>
  A time written with slashes does not parse; its row has a non-empty minute key, which
  is in the minute set of its package, and the row is red.
\<close>

theorem C4_counterexample:
  "fromisoformat ''2024/01/01 01:12:00'' = None
   \<and> fromisoformat (py_replace CHR '' '' CHR ''T'' ''2024/01/01 01:12:00'') = None
   \<and> minute_key_from_rct_utc_to_kst fromisoformat (last_time_moved_utc junk_row)
       = ''2024/01/01 01:12''
   \<and> rct_min_set fromisoformat [junk_row] ''app.demo'' = {''2024/01/01 01:12''}
   \<and> rct_table fromisoformat [junk_row] demo_usg ''app.demo'' = [(junk_row, Red)]"
  by code_simp

theorem C4_witness:
  "fromisoformat ''2024/01/01 01:12:00'' = None
   \<and> fromisoformat (py_replace CHR '' '' CHR ''T'' ''2024/01/01 01:12:00'') = None
   \<and> minute_key_from_rct_utc_to_kst fromisoformat (Some ''2024/01/01 01:12:00'')
       = take 16 (py_replace CHR ''T'' CHR '' '' ''2024/01/01 01:12:00'')
   \<and> minute_key_from_rct_utc_to_kst fromisoformat (Some ''2024/01/01 01:12:00'') \<noteq> []
   \<and> minute_key_from_rct_utc_to_kst fromisoformat (Some ''2024-01-01T01:12:00+00:00'') \<noteq> []
   \<and> minute_key_from_rct_utc_to_kst fromisoformat (Some []) = []
   \<and> minute_key_from_rct_utc_to_kst fromisoformat None = []"
proof -
  have p: "fromisoformat ''2024/01/01 01:12:00'' = None
         \<and> fromisoformat (py_replace CHR '' '' CHR ''T'' ''2024/01/01 01:12:00'') = None"
    by code_simp
  note C4 = C4_unparsable_timestamp_key [where P = fromisoformat
      and v = "''2024/01/01 01:12:00''" and R = "[]" and U = "[]" and pkg = "[]"]
  from C4 p
  have k: "minute_key_from_rct_utc_to_kst fromisoformat (Some ''2024/01/01 01:12:00'')
             = take 16 (py_replace CHR ''T'' CHR '' '' ''2024/01/01 01:12:00'')
           \<and> minute_key_from_rct_utc_to_kst fromisoformat (Some ''2024/01/01 01:12:00'') \<noteq> []"
    by blast
  from C4
  have e: "\<forall>ts. minute_key_from_rct_utc_to_kst fromisoformat ts = []
                \<longleftrightarrow> ts = None \<or> ts = Some []"
    by blast
  from e have e1: "minute_key_from_rct_utc_to_kst fromisoformat
                     (Some ''2024-01-01T01:12:00+00:00'') \<noteq> []"
    by simp
  from e have e2: "minute_key_from_rct_utc_to_kst fromisoformat (Some []) = []"
    by simp
  from e have e3: "minute_key_from_rct_utc_to_kst fromisoformat None = []"
    by simp
  from p k e1 e2 e3 show ?thesis by blast
qed

subsection \<open>Scoring and image collection\<close>

lemma img_found_iff_score_found:
  "img_found idx cs \<noteq> None \<longleftrightarrow> score_found idx (map py_lower cs)"
proof (induction cs)
  case Nil
  show ?case by simp
next
  case (Cons c cs)
  have ex: "list_ex (\<lambda>key. endswith key k) (map fst idx)
              \<longleftrightarrow> find (\<lambda>(key, p). endswith key k) idx \<noteq> None" for k
    by (induction idx) auto
  show ?case
    using Cons.IH
    by (auto simp: Let_def dict_mem_def ex split: option.splits)
qed

lemma filter_strip:
  assumes "\<And>c. py_isspace c \<Longrightarrow> \<not> P c"
  shows "filter P (py_strip s) = filter P s"
proof -
  have dw: "filter P (dropWhile py_isspace xs) = filter P xs" for xs
    using assms by (induction xs) auto
  have "filter P (py_strip s) = rev (filter P (dropWhile py_isspace (rev (dropWhile py_isspace s))))"
    by (simp add: py_strip_def rev_filter)
  also have "\<dots> = rev (filter P (rev (dropWhile py_isspace s)))"
    by (simp only: dw)
  also have "\<dots> = filter P (dropWhile py_isspace s)"
    by (simp add: rev_filter)
  finally show ?thesis by (simp only: dw)
qed

lemma space_not_digit: "py_isspace c \<Longrightarrow> \<not> py_isdigit c"
  by (auto simp: py_isspace_def py_isdigit_def Let_def)

lemma digits_of_task_id:
  "filter py_isdigit (py_strip (py_str t)) = filter py_isdigit (str_or_empty t)"
proof (cases t)
  case None
  have "filter py_isdigit (py_strip ''None'') = []" by code_simp
  with None show ?thesis by (simp add: py_str_def str_or_empty_def)
next
  case (Some v)
  then show ?thesis
    by (simp add: py_str_def str_or_empty_def filter_strip [OF space_not_digit])
qed

lemma py_lower_digit: "py_isdigit c \<Longrightarrow> py_lower_char c = c"
  by (auto simp: py_isdigit_def py_lower_char_def Let_def)

lemma py_lower_digits: "list_all py_isdigit d \<Longrightarrow> py_lower d = d"
  by (induction d) (auto simp: py_lower_def py_lower_digit)

lemma py_lower_append: "py_lower (a @ b) = py_lower a @ py_lower b"
  by (simp add: py_lower_def)

lemma py_lower_suffixes:
  "py_lower ''.jpg'' = ''.jpg''" "py_lower ''.png'' = ''.png''"
  "py_lower ''.webp'' = ''.webp''" "py_lower ''.jpeg'' = ''.jpeg''"
  "py_lower ''_reduced.jpg'' = ''_reduced.jpg''" "py_lower ''_reduced.png'' = ''_reduced.png''"
  "py_lower ''_reduced.webp'' = ''_reduced.webp''" "py_lower ''_reduced.jpeg'' = ''_reduced.jpeg''"
  by code_simp+

lemma lower_digit_candidates:
  "list_all py_isdigit d \<Longrightarrow> map py_lower (digit_candidates d) = digit_candidates d"
  by (simp add: digit_candidates_def exts_def py_lower_append py_lower_suffixes py_lower_digits)

lemma py_lower_Nil_iff: "py_lower s = [] \<longleftrightarrow> s = []"
  by (simp add: py_lower_def)

lemma row_scores_stored_name:
  assumes "snapshot_file r = Some n"
  shows "row_scores idx r \<longleftrightarrow> row_image idx r \<noteq> None"
proof -
  define sf where "sf = py_lower (py_strip n)"
  define d where "d = filter py_isdigit (str_or_empty (task_id r))"
  define cs where "cs = (if py_strip n \<noteq> [] then [py_strip n] else [])
                        @ (if d \<noteq> [] then digit_candidates d else [])"
  have dd: "list_all py_isdigit d" by (simp add: d_def list_all_iff)
  have lc: "map py_lower cs = (if sf \<noteq> [] then [sf] else []) @ (if d \<noteq> [] then digit_candidates d else [])"
    by (simp add: cs_def sf_def py_lower_Nil_iff lower_digit_candidates [OF dd])
  have img: "img_candidates r = cs"
    unfolding img_candidates_def Let_def digits_of_task_id cs_def d_def
    using assms by (simp add: py_str_def)
  have "row_scores idx r \<longleftrightarrow> score_found idx (map py_lower cs)"
    using assms unfolding lc by (auto simp: row_scores_def Let_def sf_def d_def str_or_empty_def)
  also have "\<dots> \<longleftrightarrow> img_found idx cs \<noteq> None"
    by (rule img_found_iff_score_found [symmetric])
  finally show ?thesis
    by (simp only: row_image_def img)
qed

lemma img_candidates_stored_name:
  assumes "snapshot_file r = Some n"
  shows "img_candidates r
     = (if py_strip n = [] then [] else [py_strip n])
       @ (let d = filter py_isdigit (str_or_empty (task_id r))
          in if d = [] then []
             else [d @ ''.jpg'', d @ ''.png'', d @ ''.webp'', d @ ''.jpeg'',
                   d @ ''_reduced.jpg'', d @ ''_reduced.png'', d @ ''_reduced.webp'',
                   d @ ''_reduced.jpeg''])"
  unfolding img_candidates_def Let_def digits_of_task_id
  using assms by (simp add: py_str_def digit_candidates_def exts_def)

text \<open>
  C9. A task stored without a snapshot (\<open>snapshot_file\<close> NULL) and a file whose name ends
  in \<open>none\<close>: the image collection resolves the file for the row, from the text \<open>None\<close>
  of the NULL cell, and the score does not count the row.
\<close>

theorem C9_null_name_disagreement:
  "snapshot_file null_row = None
   \<and> none_index = [(''img_none'', none_path)]
   \<and> row_image none_index null_row = Some none_path
   \<and> \<not> row_scores none_index null_row
   \<and> imgs none_index [null_row] ''app.demo'' = [none_path]
   \<and> snapshot_score_for_pkg none_index [null_row] ''app.demo'' = 0"
  by code_simp

text \<open>
  C5. For the same row, whose stored name is absent and whose task id has no digit,
  the candidates of the image collection are not empty: the text \<open>None\<close> is the
  first candidate, and it resolves to a path by the suffix match.
\<close>

theorem C5_null_name_candidate:
  "snapshot_file null_row = None
   \<and> filter py_isdigit (py_strip (py_str (task_id null_row))) = []
   \<and> img_candidates null_row = [''None'']
   \<and> map_of none_index (py_lower ''None'') = None
   \<and> img_found none_index (img_candidates null_row) = Some none_path"
  by code_simp

subsection \<open>The regular expressions of the package extraction\<close>

lemma backtrack_None_iff:
  "backtrack t k s = None \<longleftrightarrow> (\<forall>n. 0 < n \<and> n \<le> k \<longrightarrow> \<not> (n < length s \<and> t (s ! n)))"
  by (induction k) (auto simp: le_Suc_eq)

lemma backtrack_Some_iff:
  "backtrack t k s = Some g \<longleftrightarrow>
     (\<exists>n. 0 < n \<and> n \<le> k \<and> n < length s \<and> t (s ! n) \<and> g = take n s
          \<and> (\<forall>m. n < m \<and> m \<le> k \<longrightarrow> \<not> (m < length s \<and> t (s ! m))))"
proof (induction k)
  case 0
  show ?case by simp
next
  case (Suc k)
  show ?case
  proof (cases "Suc k < length s \<and> t (s ! Suc k)")
    case True
    then have "backtrack t (Suc k) s = Some (take (Suc k) s)" by simp
    moreover have "(\<exists>n. 0 < n \<and> n \<le> Suc k \<and> n < length s \<and> t (s ! n) \<and> g = take n s
          \<and> (\<forall>m. n < m \<and> m \<le> Suc k \<longrightarrow> \<not> (m < length s \<and> t (s ! m))))
        \<longleftrightarrow> g = take (Suc k) s"
    proof
      assume "\<exists>n. 0 < n \<and> n \<le> Suc k \<and> n < length s \<and> t (s ! n) \<and> g = take n s
          \<and> (\<forall>m. n < m \<and> m \<le> Suc k \<longrightarrow> \<not> (m < length s \<and> t (s ! m)))"
      then obtain n where n: "n \<le> Suc k" "g = take n s"
        "\<forall>m. n < m \<and> m \<le> Suc k \<longrightarrow> \<not> (m < length s \<and> t (s ! m))" by blast
      with True have "\<not> n < Suc k" by blast
      with n show "g = take (Suc k) s" by simp
    next
      assume "g = take (Suc k) s"
      with True show "\<exists>n. 0 < n \<and> n \<le> Suc k \<and> n < length s \<and> t (s ! n) \<and> g = take n s
          \<and> (\<forall>m. n < m \<and> m \<le> Suc k \<longrightarrow> \<not> (m < length s \<and> t (s ! m)))"
        by (intro exI [of _ "Suc k"]) auto
    qed
    ultimately show ?thesis by auto
  next
    case False
    then have "backtrack t (Suc k) s = backtrack t k s" by auto
    moreover have "(\<exists>n. 0 < n \<and> n \<le> Suc k \<and> n < length s \<and> t (s ! n) \<and> g = take n s
          \<and> (\<forall>m. n < m \<and> m \<le> Suc k \<longrightarrow> \<not> (m < length s \<and> t (s ! m))))
        \<longleftrightarrow> (\<exists>n. 0 < n \<and> n \<le> k \<and> n < length s \<and> t (s ! n) \<and> g = take n s
          \<and> (\<forall>m. n < m \<and> m \<le> k \<longrightarrow> \<not> (m < length s \<and> t (s ! m))))"
      using False by (metis le_Suc_eq)
    ultimately show ?thesis using Suc.IH by simp
  qed
qed

lemma take_within_run: "n \<le> length (takeWhile P s) \<Longrightarrow> list_all P (take n s)"
proof (induction s arbitrary: n)
  case Nil
  then show ?case by simp
next
  case (Cons c cs)
  then show ?case by (cases n) (auto split: if_splits)
qed

lemma run_covers_take:
  "list_all P (take n s) \<Longrightarrow> n \<le> length s \<Longrightarrow> n \<le> length (takeWhile P s)"
proof (induction s arbitrary: n)
  case Nil
  then show ?case by simp
next
  case (Cons c cs)
  then show ?case by (cases n) auto
qed

lemma token_before_iff:
  "token_before t s g \<longleftrightarrow>
     (\<exists>n. 0 < n \<and> n \<le> length (takeWhile ident_char s) \<and> n < length s \<and> t (s ! n)
          \<and> g = take n s)"
proof
  assume tb: "token_before t s g"
  then have "list_all ident_char (take (length g) s)" "length g \<le> length s"
    by (simp_all add: token_before_def)
  then have "length g \<le> length (takeWhile ident_char s)" by (rule run_covers_take)
  with tb show "\<exists>n. 0 < n \<and> n \<le> length (takeWhile ident_char s) \<and> n < length s \<and> t (s ! n)
          \<and> g = take n s"
    by (intro exI [of _ "length g"]) (auto simp: token_before_def)
next
  assume "\<exists>n. 0 < n \<and> n \<le> length (takeWhile ident_char s) \<and> n < length s \<and> t (s ! n)
          \<and> g = take n s"
  then obtain n where n: "0 < n" "n \<le> length (takeWhile ident_char s)" "n < length s"
    "t (s ! n)" "g = take n s" by blast
  from n(2) have "list_all ident_char (take n s)" by (rule take_within_run)
  with n show "token_before t s g" by (auto simp: token_before_def)
qed

lemma token_before_length:
  "token_before t s g \<Longrightarrow> g = take (length g) s \<and> length g < length s"
  by (simp add: token_before_def)

lemma group_then_None_iff: "group_then t s = None \<longleftrightarrow> (\<forall>g. \<not> token_before t s g)"
  unfolding group_then_def backtrack_None_iff token_before_iff by blast

lemma group_then_Some_iff:
  "group_then t s = Some g \<longleftrightarrow>
     token_before t s g \<and> (\<forall>g'. token_before t s g' \<longrightarrow> length g' \<le> length g)"
proof
  assume "group_then t s = Some g"
  then obtain n where n: "0 < n" "n \<le> length (takeWhile ident_char s)" "n < length s"
    "t (s ! n)" "g = take n s"
    and mx: "\<forall>m. n < m \<and> m \<le> length (takeWhile ident_char s) \<longrightarrow> \<not> (m < length s \<and> t (s ! m))"
    unfolding group_then_def backtrack_Some_iff by blast
  have tb: "token_before t s g" unfolding token_before_iff using n by blast
  have "length g' \<le> length g" if "token_before t s g'" for g'
  proof -
    from that obtain m where m: "0 < m" "m \<le> length (takeWhile ident_char s)" "m < length s"
      "t (s ! m)" "g' = take m s" unfolding token_before_iff by blast
    with mx have "\<not> n < m" by blast
    with n m show ?thesis by simp
  qed
  with tb show "token_before t s g \<and> (\<forall>g'. token_before t s g' \<longrightarrow> length g' \<le> length g)"
    by blast
next
  assume a: "token_before t s g \<and> (\<forall>g'. token_before t s g' \<longrightarrow> length g' \<le> length g)"
  then obtain n where n: "0 < n" "n \<le> length (takeWhile ident_char s)" "n < length s"
    "t (s ! n)" "g = take n s" unfolding token_before_iff by blast
  have "\<not> (m < length s \<and> t (s ! m))" if m: "n < m \<and> m \<le> length (takeWhile ident_char s)" for m
  proof
    assume h: "m < length s \<and> t (s ! m)"
    with m n(1) have "token_before t s (take m s)"
      unfolding token_before_iff by (intro exI [of _ m]) auto
    with a have "length (take m s) \<le> length g" by blast
    with h n m show False by simp
  qed
  with n show "group_then t s = Some g"
    unfolding group_then_def backtrack_Some_iff by blast
qed

lemma token_before_unique:
  assumes sep: "\<And>c. t c \<Longrightarrow> \<not> ident_char c"
    and g: "token_before t s g" and g': "token_before t s g'"
  shows "g = g'"
proof -
  have no: "\<not> length a < length b" if a: "token_before t s a" and b: "token_before t s b" for a b
  proof
    assume lt: "length a < length b"
    from b have bb: "take (length b) s = b" "list_all ident_char b"
      by (simp_all add: token_before_def)
    from bb(1) lt have "b ! length a = s ! length a" by (metis nth_take)
    moreover from bb(2) lt have "ident_char (b ! length a)" by (simp add: list_all_length)
    ultimately have "ident_char (s ! length a)" by simp
    moreover from a have "t (s ! length a)" by (simp add: token_before_def)
    ultimately show False using sep by blast
  qed
  from no [OF g g'] no [OF g' g] have "length g = length g'" by simp
  with token_before_length [OF g] token_before_length [OF g'] show ?thesis by metis
qed

lemma group_then_Some_sep:
  assumes "\<And>c. t c \<Longrightarrow> \<not> ident_char c"
  shows "group_then t s = Some g \<longleftrightarrow> token_before t s g"
  unfolding group_then_Some_iff
  using token_before_unique [OF assms] by (metis order_refl)

lemma re_search_None_iff:
  "re_search m s = None \<longleftrightarrow> (\<forall>i \<le> length s. m (drop i s) = None)"
proof (induction s)
  case Nil
  show ?case by simp
next
  case (Cons c cs)
  have "(\<forall>i \<le> length (c # cs). m (drop i (c # cs)) = None)
          \<longleftrightarrow> m (c # cs) = None \<and> (\<forall>i \<le> length cs. m (drop i cs) = None)"
  proof
    assume a: "\<forall>i \<le> length (c # cs). m (drop i (c # cs)) = None"
    then have "m (drop 0 (c # cs)) = None" by blast
    moreover have "m (drop i cs) = None" if "i \<le> length cs" for i
      using a that by (auto dest!: spec [of _ "Suc i"])
    ultimately show "m (c # cs) = None \<and> (\<forall>i \<le> length cs. m (drop i cs) = None)" by simp
  next
    assume a: "m (c # cs) = None \<and> (\<forall>i \<le> length cs. m (drop i cs) = None)"
    show "\<forall>i \<le> length (c # cs). m (drop i (c # cs)) = None"
    proof (intro allI impI)
      fix i assume "i \<le> length (c # cs)"
      with a show "m (drop i (c # cs)) = None" by (cases i) auto
    qed
  qed
  with Cons.IH show ?case by (auto split: option.splits)
qed

lemma re_search_Some_iff:
  "re_search m s = Some g \<longleftrightarrow>
     (\<exists>i \<le> length s. m (drop i s) = Some g \<and> (\<forall>j < i. m (drop j s) = None))"
proof (induction s)
  case Nil
  show ?case by simp
next
  case (Cons c cs)
  show ?case
  proof (cases "m (c # cs)")
    case (Some g0)
    have "(\<exists>i \<le> length (c # cs). m (drop i (c # cs)) = Some g
              \<and> (\<forall>j < i. m (drop j (c # cs)) = None)) \<longleftrightarrow> g0 = g"
    proof
      assume "\<exists>i \<le> length (c # cs). m (drop i (c # cs)) = Some g
              \<and> (\<forall>j < i. m (drop j (c # cs)) = None)"
      then obtain i where i: "m (drop i (c # cs)) = Some g" "\<forall>j < i. m (drop j (c # cs)) = None"
        by blast
      have "i = 0"
      proof (rule ccontr)
        assume "i \<noteq> 0"
        with i(2) have "m (drop 0 (c # cs)) = None" by blast
        with Some show False by simp
      qed
      with i(1) Some show "g0 = g" by simp
    next
      assume "g0 = g"
      with Some show "\<exists>i \<le> length (c # cs). m (drop i (c # cs)) = Some g
              \<and> (\<forall>j < i. m (drop j (c # cs)) = None)"
        by (intro exI [of _ 0]) simp
    qed
    with Some show ?thesis by simp
  next
    case None
    have "(\<exists>i \<le> length (c # cs). m (drop i (c # cs)) = Some g
              \<and> (\<forall>j < i. m (drop j (c # cs)) = None))
          \<longleftrightarrow> (\<exists>i \<le> length cs. m (drop i cs) = Some g \<and> (\<forall>j < i. m (drop j cs) = None))"
    proof
      assume "\<exists>i \<le> length (c # cs). m (drop i (c # cs)) = Some g
              \<and> (\<forall>j < i. m (drop j (c # cs)) = None)"
      then obtain i where i: "i \<le> length (c # cs)" "m (drop i (c # cs)) = Some g"
        "\<forall>j < i. m (drop j (c # cs)) = None" by blast
      from i(2) None obtain k where k: "i = Suc k" by (cases i) auto
      have "m (drop j cs) = None" if "j < k" for j
        using i(3) that k by (auto dest!: spec [of _ "Suc j"])
      with i k show "\<exists>i \<le> length cs. m (drop i cs) = Some g \<and> (\<forall>j < i. m (drop j cs) = None)"
        by (intro exI [of _ k]) auto
    next
      assume "\<exists>i \<le> length cs. m (drop i cs) = Some g \<and> (\<forall>j < i. m (drop j cs) = None)"
      then obtain k where k: "k \<le> length cs" "m (drop k cs) = Some g"
        "\<forall>j < k. m (drop j cs) = None" by blast
      have "m (drop j (c # cs)) = None" if "j < Suc k" for j
        using that k(3) None by (cases j) auto
      with k show "\<exists>i \<le> length (c # cs). m (drop i (c # cs)) = Some g
              \<and> (\<forall>j < i. m (drop j (c # cs)) = None)"
        by (intro exI [of _ "Suc k"]) auto
    qed
    with None Cons.IH show ?thesis by simp
  qed
qed

lemma brace_group_drop:
  assumes "i \<le> length s"
  shows "brace_group (drop i s) = Some g \<longleftrightarrow> brace_at s i g"
proof (cases "i < length s")
  case True
  then have d: "drop i s = s ! i # drop (Suc i) s" by (simp add: Cons_nth_drop_Suc)
  have sep: "\<And>c. c = CHR ''/'' \<Longrightarrow> \<not> ident_char c" by (simp add: ident_char_def)
  show ?thesis
    unfolding brace_group_def d brace_at_def
    using True by (simp add: group_then_Some_sep [of "\<lambda>c. c = CHR ''/''", OF sep])
next
  case False
  with assms show ?thesis by (simp add: brace_group_def brace_at_def)
qed

lemma brace_at_bound: "brace_at s i g \<Longrightarrow> i \<le> length s"
  by (simp add: brace_at_def)

lemma search_brace_Some_iff:
  "re_search brace_group s = Some g \<longleftrightarrow> first_brace_token s g"
proof
  assume "re_search brace_group s = Some g"
  then obtain i where i: "i \<le> length s" "brace_group (drop i s) = Some g"
    "\<forall>j < i. brace_group (drop j s) = None" unfolding re_search_Some_iff by blast
  have "\<not> brace_at s j g'" if "j < i" for j g'
  proof
    assume "brace_at s j g'"
    with that i(1) have "brace_group (drop j s) = Some g'" by (simp add: brace_group_drop)
    with i(3) that show False by simp
  qed
  with i show "first_brace_token s g"
    unfolding first_brace_token_def by (auto simp: brace_group_drop)
next
  assume "first_brace_token s g"
  then obtain i where i: "brace_at s i g" "\<forall>j g'. j < i \<longrightarrow> \<not> brace_at s j g'"
    unfolding first_brace_token_def by blast
  from i(1) have le: "i \<le> length s" by (rule brace_at_bound)
  have "brace_group (drop j s) = None" if "j < i" for j
  proof (cases "brace_group (drop j s)")
    case None
    then show ?thesis .
  next
    case (Some g')
    with that le have "brace_at s j g'" by (simp add: brace_group_drop)
    with i(2) that show ?thesis by blast
  qed
  with i(1) le show "re_search brace_group s = Some g"
    unfolding re_search_Some_iff by (auto simp: brace_group_drop)
qed

lemma search_brace_None_iff:
  "re_search brace_group s = None \<longleftrightarrow> (\<forall>g. \<not> first_brace_token s g)"
proof -
  have "re_search brace_group s = None \<longleftrightarrow> (\<forall>g. re_search brace_group s \<noteq> Some g)"
    by (cases "re_search brace_group s") auto
  then show ?thesis by (simp add: search_brace_Some_iff)
qed

lemma lead_group_Some_iff:
  "group_then (\<lambda>d. d = CHR ''/'' \<or> d = CHR '' '') s = Some g \<longleftrightarrow> lead_token s g"
proof -
  have sep: "\<And>c. c = CHR ''/'' \<or> c = CHR '' '' \<Longrightarrow> \<not> ident_char c"
    by (auto simp: ident_char_def)
  show ?thesis
    unfolding lead_token_def
    by (rule group_then_Some_sep [of "\<lambda>d. d = CHR ''/'' \<or> d = CHR '' ''", OF sep])
qed

lemma lead_group_None_iff:
  "group_then (\<lambda>d. d = CHR ''/'' \<or> d = CHR '' '') s = None \<longleftrightarrow> (\<forall>g. \<not> lead_token s g)"
  unfolding lead_token_def by (rule group_then_None_iff)

lemma search_dot_Some_iff:
  "re_search (group_then (\<lambda>d. d = CHR ''.'')) s = Some g \<longleftrightarrow> first_dotted s g"
proof
  assume "re_search (group_then (\<lambda>d. d = CHR ''.'')) s = Some g"
  then obtain i where i: "i \<le> length s" "group_then (\<lambda>d. d = CHR ''.'') (drop i s) = Some g"
    "\<forall>j < i. group_then (\<lambda>d. d = CHR ''.'') (drop j s) = None"
    unfolding re_search_Some_iff by blast
  from i show "first_dotted s g"
    unfolding first_dotted_def dotted_at_def group_then_Some_iff group_then_None_iff
    by (intro exI [of _ i]) auto
next
  assume "first_dotted s g"
  then obtain i where i: "dotted_at s i g" "\<forall>g'. dotted_at s i g' \<longrightarrow> length g' \<le> length g"
    "\<forall>j g'. j < i \<longrightarrow> \<not> dotted_at s j g'"
    unfolding first_dotted_def by blast
  from i(1) have le: "i \<le> length s" by (simp add: dotted_at_def)
  have a: "group_then (\<lambda>d. d = CHR ''.'') (drop i s) = Some g"
    unfolding group_then_Some_iff using i(1,2) le by (auto simp: dotted_at_def)
  have b: "group_then (\<lambda>d. d = CHR ''.'') (drop j s) = None" if "j < i" for j
    unfolding group_then_None_iff using i(3) le that by (auto simp: dotted_at_def)
  from a b le show "re_search (group_then (\<lambda>d. d = CHR ''.'')) s = Some g"
    unfolding re_search_Some_iff by blast
qed

lemma search_dot_None_iff:
  "re_search (group_then (\<lambda>d. d = CHR ''.'')) s = None \<longleftrightarrow> (\<forall>g. \<not> first_dotted s g)"
proof -
  have "re_search (group_then (\<lambda>d. d = CHR ''.'')) s = None
          \<longleftrightarrow> (\<forall>g. re_search (group_then (\<lambda>d. d = CHR ''.'')) s \<noteq> Some g)"
    by (cases "re_search (group_then (\<lambda>d. d = CHR ''.'')) s") auto
  then show ?thesis by (simp add: search_dot_Some_iff)
qed

lemma strip_no_final_space: "py_strip v \<noteq> [] \<Longrightarrow> \<not> py_isspace (last (py_strip v))"
proof -
  assume ne: "py_strip v \<noteq> []"
  define ys where "ys = dropWhile py_isspace (rev (dropWhile py_isspace v))"
  from ne have "ys \<noteq> []" by (simp add: py_strip_def ys_def)
  then have "\<not> py_isspace (hd ys)" unfolding ys_def by (rule hd_dropWhile)
  moreover from \<open>ys \<noteq> []\<close> have "last (py_strip v) = hd ys"
    by (simp add: py_strip_def ys_def [symmetric] last_rev)
  ultimately show ?thesis by simp
qed

lemma whole_group_stripped:
  "whole_group (py_strip v) = (if bare_identifier (py_strip v) then Some (py_strip v) else None)"
proof -
  have nl: "py_isspace (CHR 0x0A)" by (simp add: py_isspace_def)
  have "\<not> (py_strip v \<noteq> [] \<and> last (py_strip v) = CHR 0x0A)"
    using strip_no_final_space [of v] nl by metis
  then show ?thesis
    by (auto simp: whole_group_def bare_identifier_def)
qed

lemma extract_package_stages:
  assumes "v \<noteq> []"
  shows "extract_package (Some v) =
     (case re_search brace_group (py_strip v) of
        Some g \<Rightarrow> Some g
      | None \<Rightarrow>
          (case group_then (\<lambda>d. d = CHR ''/'' \<or> d = CHR '' '') (py_strip v) of
             Some g \<Rightarrow> Some g
           | None \<Rightarrow>
               if bare_identifier (py_strip v) then Some (py_strip v)
               else re_search (group_then (\<lambda>d. d = CHR ''.'')) (py_strip v)))"
  using assms
  by (auto simp: extract_package_def Let_def whole_group_stripped split: option.splits)

text \<open>
  C7, amended. For a non-empty \<open>real_activity\<close>, stripped of surrounding white space,
  the package is found in this order of priority: (a) the identifier of the leftmost
  \<open>{identifier/\<close>; (b) a leading identifier terminated by \<open>/\<close> or a space; (c) the
  whole text when it is a bare identifier; (d) as a last resort the longest string of
  identifier characters that a dot follows directly, taken at the leftmost position
  where such a string starts (for a dotted name, all of it before its last dot). When
  none applies no package is found, and the row is kept under the package
  \<open>android\<close>, as is a row whose \<open>real_activity\<close> is NULL or empty.
\<close>

theorem C7_package_resolution:
  assumes "v \<noteq> []"
  shows "(first_brace_token (py_strip v) g \<longrightarrow> extract_package (Some v) = Some g)
    \<and> ((\<forall>g'. \<not> first_brace_token (py_strip v) g') \<and> lead_token (py_strip v) g
          \<longrightarrow> extract_package (Some v) = Some g)
    \<and> ((\<forall>g'. \<not> first_brace_token (py_strip v) g') \<and> (\<forall>g'. \<not> lead_token (py_strip v) g')
          \<and> bare_identifier (py_strip v)
          \<longrightarrow> extract_package (Some v) = Some (py_strip v))
    \<and> ((\<forall>g'. \<not> first_brace_token (py_strip v) g') \<and> (\<forall>g'. \<not> lead_token (py_strip v) g')
          \<and> \<not> bare_identifier (py_strip v) \<and> first_dotted (py_strip v) g
          \<longrightarrow> extract_package (Some v) = Some g)
    \<and> ((\<forall>g'. \<not> first_brace_token (py_strip v) g') \<and> (\<forall>g'. \<not> lead_token (py_strip v) g')
          \<and> \<not> bare_identifier (py_strip v) \<and> (\<forall>g'. \<not> first_dotted (py_strip v) g')
          \<longrightarrow> extract_package (Some v) = None
              \<and> fillna_android (extract_package (Some v)) = ''android'')
    \<and> map (\<lambda>r. (real_activity r, rct_pkg2 r)) (read_recenttasks (Some rows))
        = map (\<lambda>r. (real_activity r, fillna_android (extract_package (real_activity r)))) rows
    \<and> extract_package None = None \<and> extract_package (Some []) = None"
proof -
  note E = extract_package_stages [OF assms]
  have a: "extract_package (Some v) = Some g" if "first_brace_token (py_strip v) g"
    using that E by (simp add: search_brace_Some_iff [symmetric])
  have b: "extract_package (Some v) = Some g"
    if "(\<forall>g'. \<not> first_brace_token (py_strip v) g') \<and> lead_token (py_strip v) g"
    using that E
    by (simp add: search_brace_None_iff [symmetric] lead_group_Some_iff [symmetric])
  have c: "extract_package (Some v) = Some (py_strip v)"
    if "(\<forall>g'. \<not> first_brace_token (py_strip v) g') \<and> (\<forall>g'. \<not> lead_token (py_strip v) g')
          \<and> bare_identifier (py_strip v)"
    using that E
    by (simp add: search_brace_None_iff [symmetric] lead_group_None_iff [symmetric])
  have d: "extract_package (Some v) = Some g"
    if "(\<forall>g'. \<not> first_brace_token (py_strip v) g') \<and> (\<forall>g'. \<not> lead_token (py_strip v) g')
          \<and> \<not> bare_identifier (py_strip v) \<and> first_dotted (py_strip v) g"
    using that E
    by (simp add: search_brace_None_iff [symmetric] lead_group_None_iff [symmetric]
        search_dot_Some_iff [symmetric])
  have e: "extract_package (Some v) = None
              \<and> fillna_android (extract_package (Some v)) = ''android''"
    if "(\<forall>g'. \<not> first_brace_token (py_strip v) g') \<and> (\<forall>g'. \<not> lead_token (py_strip v) g')
          \<and> \<not> bare_identifier (py_strip v) \<and> (\<forall>g'. \<not> first_dotted (py_strip v) g')"
    using that E
    by (simp add: search_brace_None_iff [symmetric] lead_group_None_iff [symmetric]
        search_dot_None_iff [symmetric] fillna_android_def)
  have f: "map (\<lambda>r. (real_activity r, rct_pkg2 r)) (read_recenttasks (Some rows))
        = map (\<lambda>r. (real_activity r, fillna_android (extract_package (real_activity r)))) rows"
    by (simp add: read_recenttasks_def rct_pkg2_def comp_def)
  have n: "extract_package None = None \<and> extract_package (Some []) = None"
    by (simp add: extract_package_def)
  from a b c d e f n show ?thesis by blast
qed

text \<open>
  A dotted class name with an inner class: none of (a), (b), (c) applies, the text
  before the first dot is \<open>com\<close>, and the package found is \<open>com.foo\<close>.
\<close>

theorem C7_counterexample:
  "py_strip ''com.foo.Bar$Inner'' = ''com.foo.Bar$Inner''
   \<and> re_search brace_group ''com.foo.Bar$Inner'' = None
   \<and> group_then (\<lambda>d. d = CHR ''/'' \<or> d = CHR '' '') ''com.foo.Bar$Inner'' = None
   \<and> whole_group ''com.foo.Bar$Inner'' = None
   \<and> takeWhile (\<lambda>c. c \<noteq> CHR ''.'') ''com.foo.Bar$Inner'' = ''com''
   \<and> extract_package (Some ''com.foo.Bar$Inner'') = Some ''com.foo''
   \<and> extract_package (Some ''com.foo.Bar$Inner'')
       \<noteq> Some (takeWhile (\<lambda>c. c \<noteq> CHR ''.'') ''com.foo.Bar$Inner'')"
  by code_simp

theorem C7_witness:
  "first_brace_token ''ComponentInfo{app.demo/app.demo.Main}'' ''app.demo''
   \<and> extract_package (Some ''ComponentInfo{app.demo/app.demo.Main}'') = Some ''app.demo''
   \<and> lead_token ''app.demo/.Main'' ''app.demo''
   \<and> extract_package (Some '' app.demo/.Main '') = Some ''app.demo''
   \<and> bare_identifier ''app.demo''
   \<and> extract_package (Some ''app.demo'') = Some ''app.demo''
   \<and> first_dotted ''com.foo.Bar$Inner'' ''com.foo''
   \<and> extract_package (Some ''com.foo.Bar$Inner'') = Some ''com.foo''
   \<and> extract_package (Some ''???'') = None
   \<and> fillna_android (extract_package (Some ''???'')) = ''android''"
proof -
  have a1: "first_brace_token ''ComponentInfo{app.demo/app.demo.Main}'' ''app.demo''"
    unfolding search_brace_Some_iff [symmetric] by code_simp
  have a0: "py_strip ''ComponentInfo{app.demo/app.demo.Main}''
              = ''ComponentInfo{app.demo/app.demo.Main}''" by code_simp
  from C7_package_resolution [where v = "''ComponentInfo{app.demo/app.demo.Main}''"
      and g = "''app.demo''" and rows = "[]"] a0 a1
  have a: "extract_package (Some ''ComponentInfo{app.demo/app.demo.Main}'') = Some ''app.demo''"
    by simp
  have b0: "py_strip '' app.demo/.Main '' = ''app.demo/.Main''" by code_simp
  have b1: "\<forall>g'. \<not> first_brace_token ''app.demo/.Main'' g'"
    unfolding search_brace_None_iff [symmetric] by code_simp
  have b2: "lead_token ''app.demo/.Main'' ''app.demo''"
    unfolding lead_group_Some_iff [symmetric] by code_simp
  from C7_package_resolution [where v = "'' app.demo/.Main ''" and g = "''app.demo''"
      and rows = "[]"] b0 b1 b2
  have b: "extract_package (Some '' app.demo/.Main '') = Some ''app.demo''"
    by simp
  have c0: "py_strip ''app.demo'' = ''app.demo''" by code_simp
  have c1: "\<forall>g'. \<not> first_brace_token ''app.demo'' g'"
    unfolding search_brace_None_iff [symmetric] by code_simp
  have c2: "\<forall>g'. \<not> lead_token ''app.demo'' g'"
    unfolding lead_group_None_iff [symmetric] by code_simp
  have c3: "bare_identifier ''app.demo''" by code_simp
  from C7_package_resolution [where v = "''app.demo''" and g = "[]" and rows = "[]"] c0 c1 c2 c3
  have c: "extract_package (Some ''app.demo'') = Some ''app.demo''"
    by simp
  have d0: "py_strip ''com.foo.Bar$Inner'' = ''com.foo.Bar$Inner''" by code_simp
  have d1: "\<forall>g'. \<not> first_brace_token ''com.foo.Bar$Inner'' g'"
    unfolding search_brace_None_iff [symmetric] by code_simp
  have d2: "\<forall>g'. \<not> lead_token ''com.foo.Bar$Inner'' g'"
    unfolding lead_group_None_iff [symmetric] by code_simp
  have d3: "\<not> bare_identifier ''com.foo.Bar$Inner''" by code_simp
  have d4: "first_dotted ''com.foo.Bar$Inner'' ''com.foo''"
    unfolding search_dot_Some_iff [symmetric] by code_simp
  from C7_package_resolution [where v = "''com.foo.Bar$Inner''" and g = "''com.foo''"
      and rows = "[]"] d0 d1 d2 d3 d4
  have d: "extract_package (Some ''com.foo.Bar$Inner'') = Some ''com.foo''"
    by simp
  have e0: "py_strip ''???'' = ''???''" by code_simp
  have e1: "\<forall>g'. \<not> first_brace_token ''???'' g'"
    unfolding search_brace_None_iff [symmetric] by code_simp
  have e2: "\<forall>g'. \<not> lead_token ''???'' g'"
    unfolding lead_group_None_iff [symmetric] by code_simp
  have e3: "\<not> bare_identifier ''???''" by code_simp
  have e4: "\<forall>g'. \<not> first_dotted ''???'' g'"
    unfolding search_dot_None_iff [symmetric] by code_simp
  from C7_package_resolution [where v = "''???''" and g = "[]" and rows = "[]"] e0 e1 e2 e3 e4
  have e: "extract_package (Some ''???'') = None
           \<and> fillna_android (extract_package (Some ''???'')) = ''android''"
    by (simp add: fillna_android_def)
  note e' = conjunct1 [OF e] and e'' = conjunct2 [OF e]
  from a1 a b2 b c3 c d4 d e' e'' show ?thesis by (intro conjI)
qed

end
